theory Spec2Isabelle
  imports Complex_Main "HOL-Library.AList" "HOL-Library.Multiset"
    "HOL-Library.Char_ord" "HOL-Library.List_Lexorder"
begin

section \<open>Python values used by \<open>wordle_stats.py\<close>\<close>

text \<open>
  Exceptions are values: a function of the script that can raise returns
  \<open>py_error + 'a\<close>, with \<open>Inl\<close> for the exception that aborts the run.
\<close>

datatype py_error = ValueError | ZeroDivisionError | OverflowError

text \<open>
  Text is a \<open>string\<close>. The character classes of \<open>re\<close> and \<open>str.strip\<close> are
  taken on ASCII text: \<open>\d\<close> is \<open>0-9\<close>, \<open>\w\<close> is \<open>[A-Za-z0-9_]\<close>, and white space
  is what \<open>str.isspace\<close> accepts below code 128.
\<close>

definition is_digit :: "char \<Rightarrow> bool" where
  "is_digit c = (c \<in> set ''0123456789'')"

definition is_space :: "char \<Rightarrow> bool" where
  "is_space c = (c \<in> set [CHR 0x09, CHR 0x0A, CHR 0x0B, CHR 0x0C, CHR 0x0D,
                            CHR 0x1C, CHR 0x1D, CHR 0x1E, CHR 0x1F, CHR 0x20])"

definition is_word :: "char \<Rightarrow> bool" where
  "is_word c = (c \<in> set ''abcdefghijklmnopqrstuvwxyzABCDEFGHIJKLMNOPQRSTUVWXYZ0123456789_'')"

definition strip :: "string \<Rightarrow> string" where
  "strip s = rev (dropWhile is_space (rev (dropWhile is_space s)))"

text \<open>
  \<open>int(s)\<close> on a \<open>str\<close>, base 10. The white space dropped around the literal is
  that of the C locale (codes 9 to 13 and the blank): on ASCII text \<open>int\<close> does not
  skip the separators 0x1C to 0x1F that \<open>str.strip\<close> removes. One sign is
  allowed, and the digits may be grouped by single underscores. Anything else
  raises \<open>ValueError\<close>, and so does a literal of more than 4300 digits (the
  default \<open>sys.int_max_str_digits\<close> of CPython 3.11; leading zeros count,
  underscores do not).
\<close>

definition is_int_space :: "char \<Rightarrow> bool" where
  "is_int_space c = (c \<in> set [CHR 0x09, CHR 0x0A, CHR 0x0B, CHR 0x0C, CHR 0x0D, CHR 0x20])"

definition int_strip :: "string \<Rightarrow> string" where
  "int_strip s = rev (dropWhile is_int_space (rev (dropWhile is_int_space s)))"

definition int_max_str_digits :: nat where
  "int_max_str_digits = 4300"

definition digit_val :: "char \<Rightarrow> int" where
  "digit_val c = int (of_char c) - 48"

fun digits_val :: "int \<Rightarrow> string \<Rightarrow> int" where
  "digits_val acc [] = acc"
| "digits_val acc (c # cs) = digits_val (acc * 10 + digit_val c) cs"

fun int_body_ok :: "string \<Rightarrow> bool" where
  "int_body_ok [] = False"
| "int_body_ok [c] = is_digit c"
| "int_body_ok (c # d # cs) =
     (is_digit c \<and> (if d = CHR ''_'' then int_body_ok cs else int_body_ok (d # cs)))"

definition py_int :: "string \<Rightarrow> py_error + int" where
  "py_int s =
     (let t = int_strip s;
          sgn_body = (case t of
                        [] \<Rightarrow> (1, [])
                      | c # b \<Rightarrow> if c = CHR ''+'' then (1, b)
                                 else if c = CHR ''-'' then (- 1, b)
                                 else (1, t))
      in if int_body_ok (snd sgn_body)
            \<and> length (filter is_digit (snd sgn_body)) \<le> int_max_str_digits
         then Inr (fst sgn_body * digits_val 0 (filter is_digit (snd sgn_body)))
         else Inl ValueError)"

section \<open>The record stream\<close>

text \<open>
  One entry of \<open>results\<close>: the dict built at lines 63-69. \<open>attempts\<close> is the text of
  the second group of the pattern, \<open>date\<close> the \<open>datetime\<close> as (year, month, day).
\<close>

record result =
  player :: string
  puzzle_num :: int
  attempts :: string
  date :: "int \<times> int \<times> int"
  year :: int

section \<open>\<open>calculate_statistics\<close>\<close>

text \<open>
  A \<open>dict\<close> keeps its keys in insertion order and assigning to a key that exists
  keeps its place: an association list under \<open>AList.update\<close>. Reading a missing key
  of a \<open>defaultdict\<close> yields the default, which the following assignment stores.
  The key \<open>"total"\<close> of a bucket is the field \<open>total_cnt\<close>, since \<open>total\<close> is a
  constant of HOL.
\<close>

record year_stats =
  total_cnt :: int
  wins :: int
  losses :: int
  attempts_dist :: "(int \<times> int) list"
  total_attempts :: int

type_synonym stats = "(string \<times> (int \<times> year_stats) list) list"

definition default_stats :: year_stats where
  "default_stats = \<lparr>total_cnt = 0, wins = 0, losses = 0, attempts_dist = [], total_attempts = 0\<rparr>"

definition get_default :: "('k \<times> 'v) list \<Rightarrow> 'k \<Rightarrow> 'v \<Rightarrow> 'v" where
  "get_default d k dflt = (case map_of d k of None \<Rightarrow> dflt | Some v \<Rightarrow> v)"

text \<open>The body of the loop at lines 89-102, for one \<open>result\<close>.\<close>

definition add_result :: "stats \<Rightarrow> result \<Rightarrow> py_error + stats" where
  "add_result st r =
     (let p = player r; y = year r; a = attempts r;
          by_year = get_default st p [];
          b0 = get_default by_year y default_stats;
          b1 = b0\<lparr>total_cnt := total_cnt b0 + 1\<rparr>
      in if a = ''X''
         then Inr (AList.update p (AList.update y (b1\<lparr>losses := losses b1 + 1\<rparr>) by_year) st)
         else (let b2 = b1\<lparr>wins := wins b1 + 1\<rparr>
               in case py_int a of
                    Inl e \<Rightarrow> Inl e
                  | Inr n \<Rightarrow>
                      (let b3 = b2\<lparr>attempts_dist :=
                                     AList.update n (get_default (attempts_dist b2) n 0 + 1)
                                       (attempts_dist b2)\<rparr>;
                           b4 = b3\<lparr>total_attempts := total_attempts b3 + n\<rparr>
                       in Inr (AList.update p (AList.update y b4 by_year) st))))"

fun stats_loop :: "stats \<Rightarrow> result list \<Rightarrow> py_error + stats" where
  "stats_loop st [] = Inr st"
| "stats_loop st (r # rs) =
     (case add_result st r of Inl e \<Rightarrow> Inl e | Inr st' \<Rightarrow> stats_loop st' rs)"

definition calculate_statistics :: "result list \<Rightarrow> py_error + stats" where
  "calculate_statistics results = stats_loop [] results"

text \<open>\<open>stats[player][year]\<close> read without creating it, as the reports do.\<close>

definition bucket :: "stats \<Rightarrow> string \<Rightarrow> int \<Rightarrow> year_stats option" where
  "bucket st p y = (case map_of st p of None \<Rightarrow> None | Some by_year \<Rightarrow> map_of by_year y)"

section \<open>\<open>calculate_head_to_head\<close>\<close>

text \<open>
  \<open>puzzles[year][puzzle_num][player] = attempts_val\<close>: three nested dicts, the two
  outer ones \<open>defaultdict\<close>s.
\<close>

type_synonym puzzles = "(int \<times> (int \<times> (string \<times> int) list) list) list"

record h2h_year =
  hugo_wins :: int
  sylvain_wins :: int
  ties :: int

type_synonym h2h_stats = "(int \<times> h2h_year) list"

definition default_h2h :: h2h_year where
  "default_h2h = \<lparr>hugo_wins = 0, sylvain_wins = 0, ties = 0\<rparr>"

text \<open>Lines 118-122: \<open>X\<close> counts as 7, anything else goes through \<open>int\<close>.\<close>

definition attempts_val :: "string \<Rightarrow> py_error + int" where
  "attempts_val a = (if a = ''X'' then Inr 7 else py_int a)"

definition add_puzzle :: "puzzles \<Rightarrow> result \<Rightarrow> py_error + puzzles" where
  "add_puzzle pz r =
     (case attempts_val (attempts r) of
        Inl e \<Rightarrow> Inl e
      | Inr v \<Rightarrow>
          (let by_num = get_default pz (year r) [];
               players = get_default by_num (puzzle_num r) []
           in Inr (AList.update (year r)
                     (AList.update (puzzle_num r) (AList.update (player r) v players) by_num)
                     pz)))"

fun puzzles_loop :: "puzzles \<Rightarrow> result list \<Rightarrow> py_error + puzzles" where
  "puzzles_loop pz [] = Inr pz"
| "puzzles_loop pz (r # rs) =
     (case add_puzzle pz r of Inl e \<Rightarrow> Inl e | Inr pz' \<Rightarrow> puzzles_loop pz' rs)"

text \<open>Lines 131-140, for the \<open>players\<close> dict of one puzzle of year \<open>y\<close>.\<close>

definition tally_puzzle :: "int \<Rightarrow> (string \<times> int) list \<Rightarrow> h2h_stats \<Rightarrow> h2h_stats" where
  "tally_puzzle y players h =
     (case (map_of players ''Hugo Ledoux'', map_of players ''Sylvain Roy'') of
        (Some hugo_attempts, Some sylvain_attempts) \<Rightarrow>
          (let cur = get_default h y default_h2h
           in if hugo_attempts < sylvain_attempts
              then AList.update y (cur\<lparr>hugo_wins := hugo_wins cur + 1\<rparr>) h
              else if sylvain_attempts < hugo_attempts
              then AList.update y (cur\<lparr>sylvain_wins := sylvain_wins cur + 1\<rparr>) h
              else AList.update y (cur\<lparr>ties := ties cur + 1\<rparr>) h)
      | _ \<Rightarrow> h)"

definition tally_year :: "int \<times> (int \<times> (string \<times> int) list) list \<Rightarrow> h2h_stats \<Rightarrow> h2h_stats" where
  "tally_year yp h = fold (\<lambda>np. tally_puzzle (fst yp) (snd np)) (snd yp) h"

definition calculate_head_to_head :: "result list \<Rightarrow> py_error + h2h_stats" where
  "calculate_head_to_head results =
     (case puzzles_loop [] results of
        Inl e \<Rightarrow> Inl e
      | Inr pz \<Rightarrow> Inr (fold tally_year pz []))"

text \<open>\<open>puzzles[year][puzzle_num].get(player)\<close>, read without creating anything.\<close>

definition entry :: "puzzles \<Rightarrow> int \<Rightarrow> int \<Rightarrow> string \<Rightarrow> int option" where
  "entry pz y n p =
     (case map_of pz y of
        None \<Rightarrow> None
      | Some by_num \<Rightarrow> (case map_of by_num n of None \<Rightarrow> None | Some players \<Rightarrow> map_of players p))"

section \<open>The rates of the text report\<close>












section \<open>\<open>parse_html_files\<close>\<close>

text \<open>
  The HTML parser is a library. A document is what the script reads from it:
  the list of \<open>div.message\<close> blocks, each with the text of its \<open>div.from_name\<close>
  and of its \<open>div.text\<close> when it has one, and its \<open>div.details\<close>: \<open>None\<close> without
  such a div, \<open>Some None\<close> when the div has no \<open>title\<close> attribute.
\<close>

record message =
  from_name :: "string option"
  text_div :: "string option"
  details :: "string option option"

text \<open>A literal of a pattern at the head of the text: the rest of the text if it is there.\<close>

definition literal_at :: "string \<Rightarrow> string \<Rightarrow> string option" where
  "literal_at lit s = (if take (length lit) s = lit then Some (drop (length lit) s) else None)"

text \<open>
  \<open>re.sub(r"\s+via\s+@\w+", "", name)\<close>. Each \<open>+\<close> of this pattern is followed by a
  character outside its class (or by the end of the pattern), so a match takes
  the whole run of the class. \<open>via_match_len s\<close> is the length of the match at
  the head of \<open>s\<close>; the substitution copies the text, leaving out every match,
  searching again where the last one ended.
\<close>

definition via_match_len :: "string \<Rightarrow> nat option" where
  "via_match_len s =
     (let ws1 = takeWhile is_space s; r1 = dropWhile is_space s
      in if ws1 = [] then None
         else case literal_at ''via'' r1 of
                None \<Rightarrow> None
              | Some r2 \<Rightarrow>
                  (let ws2 = takeWhile is_space r2; r3 = dropWhile is_space r2
                   in if ws2 = [] then None
                      else case literal_at ''@'' r3 of
                             None \<Rightarrow> None
                           | Some r4 \<Rightarrow>
                               (let w = takeWhile is_word r4
                                in if w = [] then None
                                   else Some (length ws1 + 3 + length ws2 + 1 + length w))))"

fun sub_via :: "nat \<Rightarrow> string \<Rightarrow> string" where
  "sub_via n [] = []"
| "sub_via (Suc n) (c # cs) = sub_via n cs"
| "sub_via 0 (c # cs) =
     (case via_match_len (c # cs) of
        Some k \<Rightarrow> sub_via (k - 1) cs
      | None \<Rightarrow> c # sub_via 0 cs)"

definition re_sub_via :: "string \<Rightarrow> string" where
  "re_sub_via s = sub_via 0 s"

text \<open>
  \<open>re.search(r"Wordle ([\d,]+) ([X\d])/6", text)\<close>: the leftmost position where the
  pattern matches; there the first group is tried greedily, longest first.
  The result is the pair of the two groups.
\<close>

definition is_dc :: "char \<Rightarrow> bool" where
  "is_dc c = (is_digit c \<or> c = CHR '','')"

definition tail_match :: "string \<Rightarrow> string option" where
  "tail_match s =
     (case literal_at '' '' s of
        None \<Rightarrow> None
      | Some r1 \<Rightarrow>
          (case r1 of
             [] \<Rightarrow> None
           | a # r2 \<Rightarrow>
               if a = CHR ''X'' \<or> is_digit a
               then (case literal_at ''/6'' r2 of None \<Rightarrow> None | Some r3 \<Rightarrow> Some [a])
               else None))"

fun greedy_group :: "nat \<Rightarrow> string \<Rightarrow> (string \<times> string) option" where
  "greedy_group 0 r = None"
| "greedy_group (Suc k) r =
     (case tail_match (drop (Suc k) r) of
        Some g2 \<Rightarrow> Some (take (Suc k) r, g2)
      | None \<Rightarrow> greedy_group k r)"

definition wordle_match_at :: "string \<Rightarrow> (string \<times> string) option" where
  "wordle_match_at s =
     (case literal_at ''Wordle '' s of
        None \<Rightarrow> None
      | Some r \<Rightarrow> greedy_group (length (takeWhile is_dc r)) r)"

fun re_search_wordle :: "string \<Rightarrow> (string \<times> string) option" where
  "re_search_wordle [] = None"
| "re_search_wordle (c # cs) =
     (case wordle_match_at (c # cs) of
        Some g \<Rightarrow> Some g
      | None \<Rightarrow> re_search_wordle cs)"

text \<open>\<open>re.match(r"(\d{2})\.(\d{2})\.(\d{4})", date_str)\<close>: day, month, year.\<close>

definition re_match_date :: "string \<Rightarrow> (string \<times> string \<times> string) option" where
  "re_match_date s =
     (let dd = take 2 s; mm = take 2 (drop 3 s); yyyy = take 4 (drop 6 s)
      in if length s \<ge> 10 \<and> list_all is_digit dd \<and> s ! 2 = CHR ''.''
            \<and> list_all is_digit mm \<and> s ! 5 = CHR ''.'' \<and> list_all is_digit yyyy
         then Some (dd, mm, yyyy) else None)"

text \<open>
  \<open>datetime(year, month, day)\<close> of the standard library: \<open>ValueError\<close> unless the
  year is in 1..9999 and month and day name a day of the Gregorian calendar.
\<close>

definition is_leap :: "int \<Rightarrow> bool" where
  "is_leap y = (y mod 4 = 0 \<and> (y mod 100 \<noteq> 0 \<or> y mod 400 = 0))"

definition days_in_month :: "int \<Rightarrow> int \<Rightarrow> int" where
  "days_in_month y m =
     (if m = 2 then (if is_leap y then 29 else 28)
      else if m = 4 \<or> m = 6 \<or> m = 9 \<or> m = 11 then 30 else 31)"

definition valid_date :: "int \<times> int \<times> int \<Rightarrow> bool" where
  "valid_date ymd =
     (case ymd of (y, m, d) \<Rightarrow>
        1 \<le> y \<and> y \<le> 9999 \<and> 1 \<le> m \<and> m \<le> 12 \<and> 1 \<le> d \<and> d \<le> days_in_month y m)"

definition datetime :: "int \<Rightarrow> int \<Rightarrow> int \<Rightarrow> py_error + (int \<times> int \<times> int)" where
  "datetime y m d = (if valid_date (y, m, d) then Inr (y, m, d) else Inl ValueError)"

text \<open>
  Lines 31-35: the author in force after the block. A block with a
  \<open>div.from_name\<close> sets it, any other block leaves it as it was.
\<close>

definition next_player :: "string option \<Rightarrow> message \<Rightarrow> string option" where
  "next_player current_player msg =
     (case from_name msg of
        None \<Rightarrow> current_player
      | Some n \<Rightarrow> Some (re_sub_via (strip n)))"

text \<open>Truth value of a \<open>str\<close> or \<open>None\<close> in a condition.\<close>

definition truthy :: "string option \<Rightarrow> bool" where
  "truthy v = (case v of None \<Rightarrow> False | Some s \<Rightarrow> s \<noteq> [])"

text \<open>
  Lines 37-70: the records one block appends to \<open>results\<close> (none or one), given
  the author in force, or the exception it raises.
\<close>

definition message_results :: "string option \<Rightarrow> message \<Rightarrow> py_error + result list" where
  "message_results current_player msg =
     (case text_div msg of
        None \<Rightarrow> Inr []
      | Some txt \<Rightarrow>
          (case re_search_wordle txt of
             None \<Rightarrow> Inr []
           | Some (g1, g2) \<Rightarrow>
               if \<not> truthy current_player then Inr []
               else
                 (case py_int (filter (\<lambda>c. c \<noteq> CHR '','') g1) of
                    Inl e \<Rightarrow> Inl e
                  | Inr pnum \<Rightarrow>
                      (case details msg of
                         None \<Rightarrow> Inr []
                       | Some title \<Rightarrow>
                           if \<not> truthy title then Inr []
                           else
                             (case re_match_date (the title) of
                                None \<Rightarrow> Inr []
                              | Some (day, month, yr) \<Rightarrow>
                                  (case py_int yr of
                                     Inl e \<Rightarrow> Inl e
                                   | Inr y \<Rightarrow>
                                       (case py_int month of
                                          Inl e \<Rightarrow> Inl e
                                        | Inr m \<Rightarrow>
                                            (case py_int day of
                                               Inl e \<Rightarrow> Inl e
                                             | Inr d \<Rightarrow>
                                                 (case datetime y m d of
                                                    Inl e \<Rightarrow> Inl e
                                                  | Inr dt \<Rightarrow>
                                                      Inr [\<lparr>player = the current_player,
                                                            puzzle_num = pnum,
                                                            attempts = g2,
                                                            date = dt,
                                                            year = fst dt\<rparr>])))))))))"

text \<open>The loop over the blocks of one document (lines 30-70).\<close>

fun messages_loop ::
  "string option \<Rightarrow> result list \<Rightarrow> message list \<Rightarrow> py_error + result list" where
  "messages_loop current_player results [] = Inr results"
| "messages_loop current_player results (msg # msgs) =
     (let cp = next_player current_player msg
      in case message_results cp msg of
           Inl e \<Rightarrow> Inl e
         | Inr new \<Rightarrow> messages_loop cp (results @ new) msgs)"

text \<open>
  The loop over the documents, in the sorted order of their names (lines 21-29):
  \<open>current_player\<close> starts as \<open>None\<close> in each.
\<close>

fun files_loop :: "result list \<Rightarrow> message list list \<Rightarrow> py_error + result list" where
  "files_loop results [] = Inr results"
| "files_loop results (doc # docs) =
     (case messages_loop None results doc of
        Inl e \<Rightarrow> Inl e
      | Inr results' \<Rightarrow> files_loop results' docs)"

definition parse_html_files :: "message list list \<Rightarrow> py_error + result list" where
  "parse_html_files docs = files_loop [] docs"

section \<open>Notions used in the statements\<close>

definition stats_inv :: "year_stats \<Rightarrow> bool" where
  "stats_inv b = (wins b + losses b = total_cnt b \<and> sum_list (map snd (attempts_dist b)) = wins b)"

definition all_buckets :: "(year_stats \<Rightarrow> bool) \<Rightarrow> stats \<Rightarrow> bool" where
  "all_buckets P st =
     (\<forall>p by_year y b. (p, by_year) \<in> set st \<longrightarrow> (y, b) \<in> set by_year \<longrightarrow> P b)"

text \<open>
  A bucket as Python compares it: two dicts are equal when they hold the same
  values under the same keys, in whatever order the keys were inserted.
\<close>

type_synonym bucket_view = "int \<times> int \<times> int \<times> (int \<rightharpoonup> int) \<times> int"

definition stats_view :: "year_stats \<Rightarrow> bucket_view" where
  "stats_view b = (total_cnt b, wins b, losses b, map_of (attempts_dist b), total_attempts b)"

text \<open>The records on which neither aggregator raises.\<close>

definition attempts_ok :: "result \<Rightarrow> bool" where
  "attempts_ok r = (attempts r = ''X'' \<or> (\<exists>n. py_int (attempts r) = Inr n))"

text \<open>The effect of one record on the view of its bucket, and on the view of any bucket.\<close>

definition view_add :: "result \<Rightarrow> bucket_view \<Rightarrow> bucket_view" where
  "view_add r v =
     (case v of (t, w, l, d, ta) \<Rightarrow>
        if attempts r = ''X'' then (t + 1, w, l + 1, d, ta)
        else (case py_int (attempts r) of
                Inl e \<Rightarrow> v
              | Inr n \<Rightarrow> (t + 1, w + 1, l, d(n \<mapsto> (case d n of None \<Rightarrow> 0 | Some c \<Rightarrow> c) + 1), ta + n)))"

definition view_step :: "string \<Rightarrow> int \<Rightarrow> result \<Rightarrow> bucket_view option \<Rightarrow> bucket_view option" where
  "view_step p y r vo =
     (if player r = p \<and> year r = y
      then Some (view_add r (case vo of None \<Rightarrow> stats_view default_stats | Some v \<Rightarrow> v))
      else vo)"

text \<open>
  What the head-to-head view is compared with. \<open>last_recorded rs y n p\<close> is the
  numeric value of the last record of \<open>rs\<close> that player \<open>p\<close> has for puzzle \<open>n\<close>
  in year \<open>y\<close>; \<open>has_record\<close> says that there is such a record.
\<close>

fun last_recorded :: "result list \<Rightarrow> int \<Rightarrow> int \<Rightarrow> string \<Rightarrow> int option" where
  "last_recorded [] y n p = None"
| "last_recorded (r # rs) y n p =
     (case last_recorded rs y n p of
        Some v \<Rightarrow> Some v
      | None \<Rightarrow>
          if year r = y \<and> puzzle_num r = n \<and> player r = p
          then (case attempts_val (attempts r) of Inl e \<Rightarrow> None | Inr v \<Rightarrow> Some v)
          else None)"

definition has_record :: "result list \<Rightarrow> int \<Rightarrow> int \<Rightarrow> string \<Rightarrow> bool" where
  "has_record rs y n p = (\<exists>r \<in> set rs. year r = y \<and> puzzle_num r = n \<and> player r = p)"

text \<open>
  The three outcomes of a puzzle, on the values of the two designated players;
  none of them holds when a value is missing.
\<close>

definition hugo_better :: "int option \<Rightarrow> int option \<Rightarrow> bool" where
  "hugo_better h s = (case (h, s) of (Some a, Some b) \<Rightarrow> a < b | _ \<Rightarrow> False)"

definition sylvain_better :: "int option \<Rightarrow> int option \<Rightarrow> bool" where
  "sylvain_better h s = (case (h, s) of (Some a, Some b) \<Rightarrow> b < a | _ \<Rightarrow> False)"

definition tied :: "int option \<Rightarrow> int option \<Rightarrow> bool" where
  "tied h s = (case (h, s) of (Some a, Some b) \<Rightarrow> a = b | _ \<Rightarrow> False)"

definition both_played :: "int option \<Rightarrow> int option \<Rightarrow> bool" where
  "both_played h s = (h \<noteq> None \<and> s \<noteq> None)"

text \<open>
  The distinct puzzle numbers of year \<open>y\<close>, and how many of them stand in relation
  \<open>rel\<close> on the last recorded values of the two players.
\<close>

definition year_puzzle_nums :: "result list \<Rightarrow> int \<Rightarrow> int list" where
  "year_puzzle_nums rs y = remdups (map puzzle_num (filter (\<lambda>r. year r = y) rs))"

definition count_puzzles ::
  "(int option \<Rightarrow> int option \<Rightarrow> bool) \<Rightarrow> result list \<Rightarrow> int \<Rightarrow> int" where
  "count_puzzles rel rs y =
     int (length (filter
       (\<lambda>n. rel (last_recorded rs y n ''Hugo Ledoux'') (last_recorded rs y n ''Sylvain Roy''))
       (year_puzzle_nums rs y)))"

text \<open>A record of player \<open>p\<close> for puzzle \<open>n\<close>, posted on the first of January of \<open>y\<close>.\<close>

definition game :: "string \<Rightarrow> int \<Rightarrow> string \<Rightarrow> int \<Rightarrow> result" where
  "game p n a y = \<lparr>player = p, puzzle_num = n, attempts = a, date = (y, 1, 1), year = y\<rparr>"

text \<open>Auxiliary notions of the proofs about \<open>calculate_head_to_head\<close>.\<close>

definition bump :: "(string \<times> int) list \<Rightarrow> h2h_year \<Rightarrow> h2h_year" where
  "bump players cur =
     (let h = map_of players ''Hugo Ledoux''; s = map_of players ''Sylvain Roy''
      in cur\<lparr>hugo_wins := hugo_wins cur + (if hugo_better h s then 1 else 0),
             sylvain_wins := sylvain_wins cur + (if sylvain_better h s then 1 else 0),
             ties := ties cur + (if tied h s then 1 else 0)\<rparr>)"

definition wf_puzzles :: "puzzles \<Rightarrow> bool" where
  "wf_puzzles pz = (distinct (map fst pz) \<and> (\<forall>y by_num. (y, by_num) \<in> set pz \<longrightarrow> distinct (map fst by_num)))"

definition needs_both :: "(int option \<Rightarrow> int option \<Rightarrow> bool) \<Rightarrow> bool" where
  "needs_both rel = (\<forall>a b. rel a b \<longrightarrow> a \<noteq> None \<and> b \<noteq> None)"


text \<open>
  \<open>.replace(",", "")\<close> on the first group; a mention as it stands in a message;
  a block with a text and a \<open>title\<close>.
\<close>

definition ungroup :: "string \<Rightarrow> string" where
  "ungroup s = filter (\<lambda>c. c \<noteq> CHR '','') s"

definition mention :: "string \<Rightarrow> char \<Rightarrow> string" where
  "mention tok a = ''Wordle '' @ tok @ '' '' @ [a] @ ''/6''"

definition block :: "string option \<Rightarrow> string \<Rightarrow> string \<Rightarrow> message" where
  "block author body title = \<lparr>from_name = author, text_div = Some body, details = Some (Some title)\<rparr>"




section \<open>Properties of \<open>int\<close> and of the division\<close>

lemma is_digit_not_int_space: "is_digit c \<Longrightarrow> \<not> is_int_space c"
  by (auto simp: is_digit_def is_int_space_def)

lemma is_digit_not_sign:
  "is_digit c \<Longrightarrow> c \<noteq> CHR ''+'' \<and> c \<noteq> CHR ''-'' \<and> c \<noteq> CHR ''_'' \<and> c \<noteq> CHR '',''"
  by (auto simp: is_digit_def)

lemma int_strip_digits:
  assumes "s \<noteq> []" "list_all is_digit s"
  shows "int_strip s = s"
proof -
  from assms obtain c cs where s: "s = c # cs" by (cases s) auto
  with assms have "\<not> is_int_space c" by (simp add: is_digit_not_int_space)
  then have 1: "dropWhile is_int_space s = s" by (simp add: s)
  from assms have "rev s \<noteq> []" "list_all is_digit (rev s)" by (simp_all add: list_all_iff)
  then obtain d ds where r: "rev s = d # ds" by (cases "rev s") auto
  with \<open>list_all is_digit (rev s)\<close> have "\<not> is_int_space d" by (simp add: is_digit_not_int_space)
  then have "dropWhile is_int_space (rev s) = rev s" by (simp add: r)
  with 1 show ?thesis by (simp add: int_strip_def)
qed

lemma int_body_ok_digits: "s \<noteq> [] \<Longrightarrow> list_all is_digit s \<Longrightarrow> int_body_ok s"
  by (induction s rule: int_body_ok.induct) (auto simp: is_digit_not_sign)

lemma filter_digits: "list_all is_digit s \<Longrightarrow> filter is_digit s = s"
  by (induction s) auto

lemma py_int_digits:
  assumes "s \<noteq> []" "list_all is_digit s"
  shows "py_int s = (if length s \<le> int_max_str_digits then Inr (digits_val 0 s) else Inl ValueError)"
proof -
  from assms obtain c cs where s: "s = c # cs" by (cases s) auto
  with assms have c: "c \<noteq> CHR ''+''" "c \<noteq> CHR ''-''" using is_digit_not_sign by auto
  have st: "int_strip (c # cs) = c # cs" using int_strip_digits [OF assms] by (simp add: s)
  have ok: "int_body_ok (c # cs)" using int_body_ok_digits [OF assms] by (simp add: s)
  have fl: "filter is_digit cs = cs" using assms by (simp add: s filter_digits)
  show ?thesis
    unfolding s py_int_def using c ok assms by (simp add: st fl s)
qed

lemma py_int_empty: "py_int [] = Inl ValueError"
  by (simp add: py_int_def int_strip_def)

lemma digit_val_range: "is_digit c \<Longrightarrow> 0 \<le> digit_val c \<and> digit_val c \<le> 9"
  by (auto simp: is_digit_def digit_val_def)

lemma digits_val_nonneg: "list_all is_digit s \<Longrightarrow> 0 \<le> acc \<Longrightarrow> 0 \<le> digits_val acc s"
  by (induction s arbitrary: acc) (auto simp: digit_val_range)

lemma py_int_digit: "is_digit c \<Longrightarrow> py_int [c] = Inr (digit_val c)"
  using py_int_digits [of "[c]"] by (simp add: int_max_str_digits_def)




section \<open>Properties of \<open>calculate_statistics\<close>\<close>

lemma set_update_subset: "set (AList.update k v al) \<subseteq> insert (k, v) (set al)"
  by (induction al) auto

lemma sum_list_bump:
  "sum_list (map snd (AList.update k (get_default al k 0 + 1) al)) = sum_list (map snd al) + (1::int)"
  by (induction al) (auto simp: get_default_def)

lemma get_default_cases:
  "get_default d k dflt = dflt \<or> (k, get_default d k dflt) \<in> set d"
  by (auto simp: get_default_def split: option.splits dest: map_of_SomeD)

lemma all_buckets_update:
  assumes "all_buckets P st" "P b"
  shows "all_buckets P (AList.update p (AList.update y b (get_default st p [])) st)"
proof -
  have by_year: "\<forall>y' b'. (y', b') \<in> set (get_default st p []) \<longrightarrow> P b'"
    using get_default_cases [of st p "[]"] assms(1) by (auto simp: all_buckets_def)
  have inner: "\<forall>y' b'. (y', b') \<in> set (AList.update y b (get_default st p [])) \<longrightarrow> P b'"
    using by_year assms(2) set_update_subset [of y b "get_default st p []"] by blast
  show ?thesis
    using inner assms(1) set_update_subset [of p "AList.update y b (get_default st p [])" st]
    unfolding all_buckets_def by blast
qed

lemma get_bucket_inv:
  assumes "all_buckets P st" "P default_stats"
  shows "P (get_default (get_default st p []) y default_stats)"
  using get_default_cases [of st p "[]"]
    get_default_cases [of "get_default st p []" y default_stats] assms
  by (auto simp: all_buckets_def)

lemma add_result_inv:
  assumes "all_buckets stats_inv st" "add_result st r = Inr st'"
  shows "all_buckets stats_inv st'"
proof -
  let ?b0 = "get_default (get_default st (player r) []) (year r) default_stats"
  have b0: "stats_inv ?b0"
    using assms(1) by (rule get_bucket_inv) (simp add: stats_inv_def default_stats_def)
  show ?thesis
  proof (cases "attempts r = ''X''")
    case True
    have "stats_inv (?b0\<lparr>total_cnt := total_cnt ?b0 + 1, losses := losses ?b0 + 1\<rparr>)"
      using b0 by (simp add: stats_inv_def)
    from all_buckets_update [OF assms(1) this, where p = "player r" and y = "year r"]
      assms(2) True
    show ?thesis by (simp add: add_result_def Let_def)
  next
    case False
    then obtain n where n: "py_int (attempts r) = Inr n"
      using assms(2) by (auto simp: add_result_def Let_def split: sum.splits)
    have "stats_inv (?b0\<lparr>total_cnt := total_cnt ?b0 + 1, wins := wins ?b0 + 1,
        attempts_dist := AList.update n (get_default (attempts_dist ?b0) n 0 + 1) (attempts_dist ?b0),
        total_attempts := total_attempts ?b0 + n\<rparr>)"
      using b0 by (simp add: stats_inv_def sum_list_bump)
    from all_buckets_update [OF assms(1) this, where p = "player r" and y = "year r"]
      assms(2) False n
    show ?thesis by (simp add: add_result_def Let_def)
  qed
qed

lemma stats_loop_inv:
  "all_buckets stats_inv st \<Longrightarrow> stats_loop st rs = Inr st' \<Longrightarrow> all_buckets stats_inv st'"
  by (induction rs arbitrary: st) (auto split: sum.splits dest: add_result_inv)

text \<open>
  C4. Whenever \<open>calculate_statistics\<close> returns, every bucket \<open>stats[p][y]\<close> of the
  result has \<open>wins + losses = total\<close>, and the values of its \<open>attempts_dist\<close> add up
  to \<open>wins\<close>.
\<close>

theorem stats_counts_consistent:
  assumes "calculate_statistics results = Inr st"
    and "(p, by_year) \<in> set st" and "(y, b) \<in> set by_year"
  shows "wins b + losses b = total_cnt b \<and> sum_list (map snd (attempts_dist b)) = wins b"
proof -
  have "all_buckets stats_inv []" by (simp add: all_buckets_def)
  then have "all_buckets stats_inv st"
    using assms(1) unfolding calculate_statistics_def by (rule stats_loop_inv)
  then show ?thesis using assms(2,3) by (auto simp: all_buckets_def stats_inv_def)
qed

theorem stats_counts_consistent_witness:
  "calculate_statistics
     [\<lparr>player = ''Hugo Ledoux'', puzzle_num = 798, attempts = ''3'', date = (2023, 8, 26), year = 2023\<rparr>,
      \<lparr>player = ''Hugo Ledoux'', puzzle_num = 799, attempts = ''X'', date = (2023, 8, 27), year = 2023\<rparr>]
   = Inr [(''Hugo Ledoux'',
           [(2023, \<lparr>total_cnt = 2, wins = 1, losses = 1, attempts_dist = [(3, 1)], total_attempts = 3\<rparr>)])]
   \<and> wins \<lparr>total_cnt = 2, wins = 1, losses = 1, attempts_dist = [(3, 1)], total_attempts = 3\<rparr>
       + losses \<lparr>total_cnt = 2, wins = 1, losses = 1, attempts_dist = [(3, 1)], total_attempts = 3\<rparr>
     = total_cnt \<lparr>total_cnt = 2, wins = 1, losses = 1, attempts_dist = [(3, 1)], total_attempts = 3\<rparr>
   \<and> sum_list (map snd (attempts_dist
        \<lparr>total_cnt = 2, wins = 1, losses = 1, attempts_dist = [(3, 1)], total_attempts = 3\<rparr>))
     = wins \<lparr>total_cnt = 2, wins = 1, losses = 1, attempts_dist = [(3, 1)], total_attempts = 3\<rparr>"
proof -
  let ?b = "\<lparr>total_cnt = 2, wins = 1, losses = 1, attempts_dist = [(3, 1)], total_attempts = 3\<rparr>"
  let ?rs = "[\<lparr>player = ''Hugo Ledoux'', puzzle_num = 798, attempts = ''3'', date = (2023, 8, 26), year = 2023\<rparr>,
      \<lparr>player = ''Hugo Ledoux'', puzzle_num = 799, attempts = ''X'', date = (2023, 8, 27), year = 2023\<rparr>]"
  have h1: "calculate_statistics ?rs = Inr [(''Hugo Ledoux'', [(2023, ?b)])]"
    by code_simp
  have h2: "(''Hugo Ledoux'', [(2023, ?b)]) \<in> set [(''Hugo Ledoux'', [(2023, ?b)])]" by simp
  have h3: "(2023, ?b) \<in> set [(2023::int, ?b)]" by simp
  from stats_counts_consistent [OF h1 h2 h3] h1 show ?thesis by blast
qed

lemma bucket_update:
  "bucket (AList.update p (AList.update y b (get_default st p [])) st) p' y' =
     (if p' = p \<and> y' = y then Some b else bucket st p' y')"
  by (auto simp: bucket_def update_conv' get_default_def split: option.splits)

lemma get_default_bucket:
  "get_default (get_default st p []) y default_stats =
     (case bucket st p y of None \<Rightarrow> default_stats | Some b \<Rightarrow> b)"
  by (auto simp: bucket_def get_default_def split: option.splits)

lemma add_result_view:
  assumes "add_result st r = Inr st'"
  shows "map_option stats_view (bucket st' p y) = view_step p y r (map_option stats_view (bucket st p y))"
proof -
  define b0 where "b0 = (case bucket st (player r) (year r) of None \<Rightarrow> default_stats | Some b \<Rightarrow> b)"
  show ?thesis
  proof (cases "attempts r = ''X''")
    case True
    have st': "st' = AList.update (player r) (AList.update (year r)
        (b0\<lparr>total_cnt := total_cnt b0 + 1, losses := losses b0 + 1\<rparr>) (get_default st (player r) [])) st"
      using assms True by (simp add: add_result_def Let_def get_default_bucket b0_def)
    show ?thesis
      unfolding st' bucket_update
      by (cases "bucket st (player r) (year r)")
         (auto simp: view_step_def view_add_def stats_view_def b0_def True)
  next
    case False
    then obtain n where n: "py_int (attempts r) = Inr n"
      using assms by (auto simp: add_result_def Let_def split: sum.splits)
    have st': "st' = AList.update (player r) (AList.update (year r)
        (b0\<lparr>total_cnt := total_cnt b0 + 1, wins := wins b0 + 1,
            attempts_dist := AList.update n (get_default (attempts_dist b0) n 0 + 1) (attempts_dist b0),
            total_attempts := total_attempts b0 + n\<rparr>) (get_default st (player r) [])) st"
      using assms False n by (simp add: add_result_def Let_def get_default_bucket b0_def)
    show ?thesis
      unfolding st' bucket_update
      by (cases "bucket st (player r) (year r)")
         (auto simp: view_step_def view_add_def stats_view_def b0_def False n update_conv'
            get_default_def)
  qed
qed

lemma stats_loop_view:
  "stats_loop st rs = Inr st' \<Longrightarrow>
   map_option stats_view (bucket st' p y) = fold (view_step p y) rs (map_option stats_view (bucket st p y))"
  by (induction rs arbitrary: st) (auto split: sum.splits simp: add_result_view)

lemma view_add_commute: "view_add r1 (view_add r2 v) = view_add r2 (view_add r1 v)"
  by (cases v) (auto simp: view_add_def fun_upd_twist split: sum.splits)

lemma view_step_commute: "view_step p y r1 \<circ> view_step p y r2 = view_step p y r2 \<circ> view_step p y r1"
  by (auto simp: fun_eq_iff view_step_def view_add_commute)

lemma add_result_ok: "(\<exists>st'. add_result st r = Inr st') \<longleftrightarrow> attempts_ok r"
  by (auto simp: add_result_def Let_def attempts_ok_def split: sum.splits)

lemma py_int_error: "py_int s = Inl e \<Longrightarrow> e = ValueError"
  by (auto simp: py_int_def Let_def split: if_splits)

lemma add_result_error: "add_result st r = Inl e \<Longrightarrow> e = ValueError"
  by (auto simp: add_result_def Let_def split: sum.splits if_splits dest: py_int_error)

lemma stats_loop_error: "stats_loop st rs = Inl e \<Longrightarrow> e = ValueError"
  by (induction rs arbitrary: st) (auto split: sum.splits dest: add_result_error)

lemma stats_loop_ok: "(\<exists>st'. stats_loop st rs = Inr st') \<longleftrightarrow> (\<forall>r \<in> set rs. attempts_ok r)"
proof (induction rs arbitrary: st)
  case Nil
  then show ?case by simp
next
  case (Cons r rs)
  show ?case
  proof (cases "add_result st r")
    case (Inl e)
    then have "\<not> attempts_ok r" using add_result_ok [of st r] by auto
    with Inl show ?thesis by simp
  next
    case (Inr st1)
    then have "attempts_ok r" using add_result_ok [of st r] by auto
    with Inr Cons.IH [of st1] show ?thesis by simp
  qed
qed

text \<open>
  C5. \<open>calculate_statistics\<close> on a permutation of the records: it raises on both
  lists or on neither, and then every bucket \<open>stats[p][y]\<close> is present in both
  results or in neither, with equal counters and equal \<open>attempts_dist\<close> dicts.
\<close>

theorem stats_order_independent:
  assumes "mset results = mset results'"
  shows "case calculate_statistics results of
           Inl e \<Rightarrow> calculate_statistics results' = Inl e
         | Inr st \<Rightarrow> (\<exists>st'. calculate_statistics results' = Inr st' \<and>
                        (\<forall>p y. map_option stats_view (bucket st p y) = map_option stats_view (bucket st' p y)))"
proof -
  have sets: "set results = set results'" using assms by (rule mset_eq_setD)
  show ?thesis
  proof (cases "calculate_statistics results")
    case (Inl e)
    then have e: "e = ValueError" unfolding calculate_statistics_def by (rule stats_loop_error)
    have "\<not> (\<forall>r \<in> set results. attempts_ok r)"
      using Inl stats_loop_ok [of "[]" results] by (auto simp: calculate_statistics_def)
    then have "\<not> (\<exists>st'. stats_loop [] results' = Inr st')"
      using stats_loop_ok [of "[]" results'] sets by simp
    then obtain e' where e': "stats_loop [] results' = Inl e'"
      by (cases "stats_loop [] results'") auto
    then have "e' = ValueError" by (rule stats_loop_error)
    with e e' Inl show ?thesis by (simp add: calculate_statistics_def)
  next
    case (Inr st)
    then have "\<forall>r \<in> set results'. attempts_ok r"
      using stats_loop_ok [of "[]" results] sets by (auto simp: calculate_statistics_def)
    then obtain st' where st': "stats_loop [] results' = Inr st'"
      using stats_loop_ok [of "[]" results'] by auto
    have "map_option stats_view (bucket st p y) = map_option stats_view (bucket st' p y)" for p y
    proof -
      have "fold (view_step p y) results = fold (view_step p y) results'"
        using assms by (intro fold_multiset_equiv view_step_commute)
      then show ?thesis
        using stats_loop_view [OF st', of p y] stats_loop_view [of "[]" results st p y] Inr
        by (simp add: calculate_statistics_def)
    qed
    with st' Inr show ?thesis by (simp add: calculate_statistics_def)
  qed
qed

theorem stats_order_independent_witness:
  "mset [\<lparr>player = ''Hugo Ledoux'', puzzle_num = 798, attempts = ''3'', date = (2023, 8, 26), year = 2023\<rparr>,
         \<lparr>player = ''Hugo Ledoux'', puzzle_num = 799, attempts = ''4'', date = (2023, 8, 27), year = 2023\<rparr>]
   = mset [\<lparr>player = ''Hugo Ledoux'', puzzle_num = 799, attempts = ''4'', date = (2023, 8, 27), year = 2023\<rparr>,
           \<lparr>player = ''Hugo Ledoux'', puzzle_num = 798, attempts = ''3'', date = (2023, 8, 26), year = 2023\<rparr>]
   \<and> (case calculate_statistics
            [\<lparr>player = ''Hugo Ledoux'', puzzle_num = 798, attempts = ''3'', date = (2023, 8, 26), year = 2023\<rparr>,
             \<lparr>player = ''Hugo Ledoux'', puzzle_num = 799, attempts = ''4'', date = (2023, 8, 27), year = 2023\<rparr>] of
         Inl e \<Rightarrow>
           calculate_statistics
             [\<lparr>player = ''Hugo Ledoux'', puzzle_num = 799, attempts = ''4'', date = (2023, 8, 27), year = 2023\<rparr>,
              \<lparr>player = ''Hugo Ledoux'', puzzle_num = 798, attempts = ''3'', date = (2023, 8, 26), year = 2023\<rparr>]
           = Inl e
       | Inr st \<Rightarrow>
           (\<exists>st'. calculate_statistics
                    [\<lparr>player = ''Hugo Ledoux'', puzzle_num = 799, attempts = ''4'', date = (2023, 8, 27), year = 2023\<rparr>,
                     \<lparr>player = ''Hugo Ledoux'', puzzle_num = 798, attempts = ''3'', date = (2023, 8, 26), year = 2023\<rparr>]
                  = Inr st'
                \<and> (\<forall>p y. map_option stats_view (bucket st p y) = map_option stats_view (bucket st' p y))))"
proof -
  let ?r1 = "\<lparr>player = ''Hugo Ledoux'', puzzle_num = 798, attempts = ''3'', date = (2023, 8, 26), year = 2023\<rparr>"
  let ?r2 = "\<lparr>player = ''Hugo Ledoux'', puzzle_num = 799, attempts = ''4'', date = (2023, 8, 27), year = 2023\<rparr>"
  have h: "mset [?r1, ?r2] = mset [?r2, ?r1]" by (simp add: add_mset_commute)
  from stats_order_independent [OF h] h show ?thesis by blast
qed

section \<open>Properties of \<open>calculate_head_to_head\<close> and of the reports\<close>

lemma get_default_update:
  "get_default (AList.update k v al) k' d = (if k' = k then v else get_default al k' d)"
  by (simp add: get_default_def update_conv')

lemma entry_update:
  "entry (AList.update y (AList.update n (AList.update p v (get_default (get_default pz y []) n []))
            (get_default pz y [])) pz) y' n' p' =
     (if y' = y \<and> n' = n \<and> p' = p then Some v else entry pz y' n' p')"
  by (auto simp: entry_def update_conv' get_default_def split: option.splits)

lemma add_puzzle_entry:
  assumes "add_puzzle pz r = Inr pz'"
  shows "\<exists>v. attempts_val (attempts r) = Inr v \<and>
     (\<forall>y n p. entry pz' y n p = (if y = year r \<and> n = puzzle_num r \<and> p = player r then Some v else entry pz y n p))"
  using assms by (auto simp: add_puzzle_def Let_def entry_update split: sum.splits)

lemma puzzles_loop_entry:
  "puzzles_loop pz rs = Inr pz' \<Longrightarrow>
   entry pz' y n p = (case last_recorded rs y n p of Some v \<Rightarrow> Some v | None \<Rightarrow> entry pz y n p)"
proof (induction rs arbitrary: pz)
  case Nil
  then show ?case by simp
next
  case (Cons r rs)
  then obtain pz1 where pz1: "add_puzzle pz r = Inr pz1" "puzzles_loop pz1 rs = Inr pz'"
    by (auto split: sum.splits)
  from add_puzzle_entry [OF pz1(1)] obtain v where v: "attempts_val (attempts r) = Inr v"
    "\<And>y n p. entry pz1 y n p = (if y = year r \<and> n = puzzle_num r \<and> p = player r then Some v else entry pz y n p)"
    by blast
  show ?case
    using Cons.IH [OF pz1(2)] v by (auto split: option.splits)
qed

lemma add_puzzle_wf:
  assumes "wf_puzzles pz" "add_puzzle pz r = Inr pz'"
  shows "wf_puzzles pz'"
proof -
  obtain v where pz': "pz' = AList.update (year r)
      (AList.update (puzzle_num r) (AList.update (player r) v
         (get_default (get_default pz (year r) []) (puzzle_num r) [])) (get_default pz (year r) [])) pz"
    using assms(2) by (auto simp: add_puzzle_def Let_def split: sum.splits)
  have d: "distinct (map fst (get_default pz (year r) []))"
    using get_default_cases [of pz "year r" "[]"] assms(1) by (auto simp: wf_puzzles_def)
  have "distinct (map fst pz')" unfolding pz' using assms(1) by (simp add: wf_puzzles_def distinct_update)
  moreover have "distinct (map fst by_num)" if "(y, by_num) \<in> set pz'" for y by_num
  proof -
    from that set_update_subset have "(y, by_num) \<in> insert (year r, AList.update (puzzle_num r) (AList.update (player r) v
         (get_default (get_default pz (year r) []) (puzzle_num r) [])) (get_default pz (year r) [])) (set pz)"
      unfolding pz' by fast
    then show ?thesis using d assms(1) by (auto simp: wf_puzzles_def distinct_update)
  qed
  ultimately show ?thesis unfolding wf_puzzles_def by blast
qed

lemma puzzles_loop_wf:
  "wf_puzzles pz \<Longrightarrow> puzzles_loop pz rs = Inr pz' \<Longrightarrow> wf_puzzles pz'"
  by (induction rs arbitrary: pz) (auto split: sum.splits dest: add_puzzle_wf)

lemma tally_puzzle_get:
  "get_default (tally_puzzle y players h) y' default_h2h =
     (if y' = y then bump players (get_default h y default_h2h) else get_default h y' default_h2h)"
  by (auto simp: tally_puzzle_def bump_def Let_def get_default_update hugo_better_def
      sylvain_better_def tied_def split: option.splits)

lemma fold_tally_puzzle_get:
  "get_default (fold (\<lambda>np. tally_puzzle y (snd np)) by_num h) y' default_h2h =
     (if y' = y then fold (\<lambda>np. bump (snd np)) by_num (get_default h y default_h2h)
      else get_default h y' default_h2h)"
  by (induction by_num arbitrary: h) (auto simp: tally_puzzle_get)

lemma fold_tally_year_get:
  "distinct (map fst pz) \<Longrightarrow>
   get_default (fold tally_year pz h) y default_h2h =
     (case map_of pz y of
        None \<Rightarrow> get_default h y default_h2h
      | Some by_num \<Rightarrow> fold (\<lambda>np. bump (snd np)) by_num (get_default h y default_h2h))"
proof (induction pz arbitrary: h)
  case Nil
  then show ?case by simp
next
  case (Cons yb pz)
  obtain y1 bn1 where yb: "yb = (y1, bn1)" by (cases yb)
  from Cons.prems have d: "distinct (map fst pz)" and nin: "y1 \<notin> fst ` set pz"
    by (auto simp: yb)
  from nin have none: "map_of pz y1 = None" by (simp add: map_of_eq_None_iff)
  show ?case
    using Cons.IH [OF d, of "tally_year yb h"] none
    by (auto simp: yb tally_year_def fold_tally_puzzle_get split: option.splits)
qed

lemma fold_bump_counts:
  "hugo_wins (fold (\<lambda>np. bump (snd np)) by_num cur) = hugo_wins cur +
     int (length (filter (\<lambda>np. hugo_better (map_of (snd np) ''Hugo Ledoux'') (map_of (snd np) ''Sylvain Roy'')) by_num))"
  "sylvain_wins (fold (\<lambda>np. bump (snd np)) by_num cur) = sylvain_wins cur +
     int (length (filter (\<lambda>np. sylvain_better (map_of (snd np) ''Hugo Ledoux'') (map_of (snd np) ''Sylvain Roy'')) by_num))"
  "ties (fold (\<lambda>np. bump (snd np)) by_num cur) = ties cur +
     int (length (filter (\<lambda>np. tied (map_of (snd np) ''Hugo Ledoux'') (map_of (snd np) ''Sylvain Roy'')) by_num))"
  by (induction by_num arbitrary: cur; simp add: bump_def Let_def)+

lemma needs_both_rels: "needs_both hugo_better" "needs_both sylvain_better" "needs_both tied"
  by (auto simp: needs_both_def hugo_better_def sylvain_better_def tied_def split: option.splits)

lemma length_filter_card:
  assumes "distinct xs" "{x. P x} \<subseteq> set xs"
  shows "length (filter P xs) = card {x. P x}"
proof -
  have "{x. P x} \<inter> set xs = {x. P x}" using assms(2) by blast
  with distinct_length_filter [OF assms(1), of P] show ?thesis by simp
qed

lemma last_recorded_SomeD:
  "last_recorded rs y n p = Some v \<Longrightarrow> \<exists>r \<in> set rs. year r = y \<and> puzzle_num r = n \<and> player r = p"
  by (induction rs) (auto split: option.splits if_splits)

lemma last_recorded_in_nums:
  "last_recorded rs y n p = Some v \<Longrightarrow> n \<in> set (year_puzzle_nums rs y)"
  by (drule last_recorded_SomeD) (auto simp: year_puzzle_nums_def)

lemma count_bridge:
  assumes wf: "wf_puzzles pz"
    and ent: "\<And>n p. entry pz y n p = last_recorded rs y n p"
    and rel: "needs_both rel"
  shows "(case map_of pz y of
            None \<Rightarrow> 0
          | Some by_num \<Rightarrow>
              int (length (filter (\<lambda>np. rel (map_of (snd np) ''Hugo Ledoux'') (map_of (snd np) ''Sylvain Roy'')) by_num)))
         = count_puzzles rel rs y"
proof -
  let ?P = "\<lambda>n. rel (last_recorded rs y n ''Hugo Ledoux'') (last_recorded rs y n ''Sylvain Roy'')"
  have sub: "{n. ?P n} \<subseteq> set (year_puzzle_nums rs y)"
    using rel last_recorded_in_nums unfolding needs_both_def by fast
  have rhs: "count_puzzles rel rs y = int (card {n. ?P n})"
    unfolding count_puzzles_def
    using length_filter_card [OF _ sub] by (simp add: year_puzzle_nums_def)
  show ?thesis
  proof (cases "map_of pz y")
    case None
    then have "entry pz y n p = None" for n p by (simp add: entry_def)
    then have "last_recorded rs y n p = None" for n p using ent by simp
    then have "\<not> ?P n" for n using rel by (auto simp: needs_both_def)
    then show ?thesis using None rhs by simp
  next
    case (Some by_num)
    then have "(y, by_num) \<in> set pz" by (rule map_of_SomeD)
    then have d: "distinct (map fst by_num)" using wf by (auto simp: wf_puzzles_def)
    have e: "entry pz y n p = (case map_of by_num n of None \<Rightarrow> None | Some pl \<Rightarrow> map_of pl p)" for n p
      using Some by (simp add: entry_def)
    have "filter (\<lambda>np. rel (map_of (snd np) ''Hugo Ledoux'') (map_of (snd np) ''Sylvain Roy'')) by_num
        = filter (?P \<circ> fst) by_num"
    proof (rule filter_cong [OF refl])
      fix np assume np: "np \<in> set by_num"
      have "map_of by_num (fst np) = Some (snd np)"
        using d np by (intro map_of_is_SomeI) simp_all
      then show "rel (map_of (snd np) ''Hugo Ledoux'') (map_of (snd np) ''Sylvain Roy'') = (?P \<circ> fst) np"
        using ent [symmetric] by (simp add: e)
    qed
    then have "length (filter (\<lambda>np. rel (map_of (snd np) ''Hugo Ledoux'') (map_of (snd np) ''Sylvain Roy'')) by_num)
        = length (filter ?P (map fst by_num))"
      by (simp add: filter_map)
    also have "\<dots> = card {n. ?P n}"
    proof (rule length_filter_card [OF d])
      show "{n. ?P n} \<subseteq> set (map fst by_num)"
      proof
        fix n assume "n \<in> {n. ?P n}"
        then have "last_recorded rs y n ''Hugo Ledoux'' \<noteq> None"
          using rel by (auto simp: needs_both_def)
        then have "map_of by_num n \<noteq> None"
          using ent [of n "''Hugo Ledoux''"] by (auto simp: e split: option.splits)
        then show "n \<in> set (map fst by_num)" by (simp add: map_of_eq_None_iff)
      qed
    qed
    finally show ?thesis using Some rhs by simp
  qed
qed

lemma h2h_counts:
  assumes "calculate_head_to_head rs = Inr h"
  shows "hugo_wins (get_default h y default_h2h) = count_puzzles hugo_better rs y"
    and "sylvain_wins (get_default h y default_h2h) = count_puzzles sylvain_better rs y"
    and "ties (get_default h y default_h2h) = count_puzzles tied rs y"
proof -
  from assms obtain pz where pz: "puzzles_loop [] rs = Inr pz" and h: "h = fold tally_year pz []"
    by (auto simp: calculate_head_to_head_def split: sum.splits)
  have wf: "wf_puzzles pz" using puzzles_loop_wf [OF _ pz] by (simp add: wf_puzzles_def)
  have ent: "entry pz y n p = last_recorded rs y n p" for n p
    using puzzles_loop_entry [OF pz, of y n p] by (simp add: entry_def split: option.splits)
  from wf have d: "distinct (map fst pz)" by (simp add: wf_puzzles_def)
  have empty: "get_default [] y default_h2h = default_h2h" by (simp add: get_default_def)
  have g: "get_default h y default_h2h =
     (case map_of pz y of None \<Rightarrow> default_h2h | Some by_num \<Rightarrow> fold (\<lambda>np. bump (snd np)) by_num default_h2h)"
    unfolding h by (simp add: fold_tally_year_get [OF d] empty split: option.splits)
  show "hugo_wins (get_default h y default_h2h) = count_puzzles hugo_better rs y"
    unfolding g using count_bridge [OF wf ent needs_both_rels(1)]
    by (simp add: fold_bump_counts default_h2h_def split: option.splits)
  show "sylvain_wins (get_default h y default_h2h) = count_puzzles sylvain_better rs y"
    unfolding g using count_bridge [OF wf ent needs_both_rels(2)]
    by (simp add: fold_bump_counts default_h2h_def split: option.splits)
  show "ties (get_default h y default_h2h) = count_puzzles tied rs y"
    unfolding g using count_bridge [OF wf ent needs_both_rels(3)]
    by (simp add: fold_bump_counts default_h2h_def split: option.splits)
qed

lemma attempts_ok_val: "attempts_ok r \<longleftrightarrow> (\<exists>v. attempts_val (attempts r) = Inr v)"
  by (auto simp: attempts_ok_def attempts_val_def)

lemma puzzles_loop_ok: "puzzles_loop pz rs = Inr pz' \<Longrightarrow> \<forall>r \<in> set rs. attempts_ok r"
  by (induction rs arbitrary: pz)
     (auto simp: attempts_ok_val add_puzzle_def split: sum.splits)

lemma last_recorded_iff:
  "\<forall>r \<in> set rs. attempts_ok r \<Longrightarrow>
   (last_recorded rs y n p \<noteq> None) = has_record rs y n p"
  by (induction rs) (auto simp: attempts_ok_val has_record_def split: option.splits)

lemma count_split:
  "count_puzzles hugo_better rs y + count_puzzles sylvain_better rs y + count_puzzles tied rs y
   = count_puzzles both_played rs y"
proof -
  have "int (length (filter (\<lambda>n. hugo_better (f n) (g n)) xs))
      + int (length (filter (\<lambda>n. sylvain_better (f n) (g n)) xs))
      + int (length (filter (\<lambda>n. tied (f n) (g n)) xs))
      = int (length (filter (\<lambda>n. both_played (f n) (g n)) xs))"
    for f g :: "int \<Rightarrow> int option" and xs
    by (induction xs)
       (auto simp: hugo_better_def sylvain_better_def tied_def both_played_def split: option.splits)
  then show ?thesis unfolding count_puzzles_def .
qed

lemma count_both_card:
  assumes "\<forall>r \<in> set rs. attempts_ok r"
  shows "count_puzzles both_played rs y =
     int (card {n. has_record rs y n ''Hugo Ledoux'' \<and> has_record rs y n ''Sylvain Roy''})"
proof -
  have eq: "both_played (last_recorded rs y n ''Hugo Ledoux'') (last_recorded rs y n ''Sylvain Roy'')
      = (has_record rs y n ''Hugo Ledoux'' \<and> has_record rs y n ''Sylvain Roy'')" for n
    using last_recorded_iff [OF assms] by (simp add: both_played_def)
  have sub: "{n. has_record rs y n ''Hugo Ledoux'' \<and> has_record rs y n ''Sylvain Roy''}
      \<subseteq> set (year_puzzle_nums rs y)"
    by (auto simp: has_record_def year_puzzle_nums_def)
  have "distinct (year_puzzle_nums rs y)" by (simp add: year_puzzle_nums_def)
  from length_filter_card [OF this sub] show ?thesis
    by (simp add: count_puzzles_def eq)
qed


























text \<open>
  C3. In \<open>calculate_head_to_head\<close> the mark \<open>X\<close> counts as 7, above the value of
  each of \<open>1\<close> .. \<open>6\<close>. For every year, \<open>hugo_wins\<close> is the number of puzzles of that
  year where both designated players have a value and Hugo's is strictly lower,
  \<open>sylvain_wins\<close> the number where Sylvain's is strictly lower, \<open>ties\<close> the number
  where the two are equal; a puzzle where one of the two is missing is in none
  of the three. In particular \<open>X\<close> against \<open>6\<close> on the same puzzle of the same year
  is one win for the player with \<open>6\<close>.
\<close>

theorem head_to_head_tally:
  assumes "calculate_head_to_head results = Inr h"
  shows "attempts_val ''X'' = Inr 7
     \<and> (\<forall>a \<in> set [''1'', ''2'', ''3'', ''4'', ''5'', ''6'']. \<exists>v. attempts_val a = Inr v \<and> v < 7)
     \<and> hugo_wins (get_default h y default_h2h) = count_puzzles hugo_better results y
     \<and> sylvain_wins (get_default h y default_h2h) = count_puzzles sylvain_better results y
     \<and> ties (get_default h y default_h2h) = count_puzzles tied results y
     \<and> calculate_head_to_head [game ''Hugo Ledoux'' n ''X'' yr, game ''Sylvain Roy'' n ''6'' yr]
         = Inr [(yr, \<lparr>hugo_wins = 0, sylvain_wins = 1, ties = 0\<rparr>)]"
proof -
  have "attempts_val ''X'' = Inr 7" by (simp add: attempts_val_def)
  moreover have "\<forall>a \<in> set [''1'', ''2'', ''3'', ''4'', ''5'', ''6'']. \<exists>v. attempts_val a = Inr v \<and> v < 7"
    by (simp add: attempts_val_def py_int_digit is_digit_def digit_val_def)
  moreover have "calculate_head_to_head [game ''Hugo Ledoux'' n ''X'' yr, game ''Sylvain Roy'' n ''6'' yr]
         = Inr [(yr, \<lparr>hugo_wins = 0, sylvain_wins = 1, ties = 0\<rparr>)]"
    by (simp add: calculate_head_to_head_def add_puzzle_def attempts_val_def py_int_digit
        is_digit_def digit_val_def get_default_def tally_year_def tally_puzzle_def
        default_h2h_def game_def Let_def)
  ultimately show ?thesis using h2h_counts [OF assms, of y] by simp
qed

theorem head_to_head_tally_witness:
  "calculate_head_to_head
     [game ''Hugo Ledoux'' 798 ''3'' 2023, game ''Sylvain Roy'' 798 ''5'' 2023,
      game ''Hugo Ledoux'' 799 ''X'' 2023, game ''Sylvain Roy'' 799 ''6'' 2023,
      game ''Hugo Ledoux'' 800 ''4'' 2023]
   = Inr [(2023, \<lparr>hugo_wins = 1, sylvain_wins = 1, ties = 0\<rparr>)]
   \<and> hugo_wins (get_default [(2023 :: int, \<lparr>hugo_wins = 1, sylvain_wins = 1, ties = 0\<rparr>)] 2023 default_h2h)
     = count_puzzles hugo_better
         [game ''Hugo Ledoux'' 798 ''3'' 2023, game ''Sylvain Roy'' 798 ''5'' 2023,
          game ''Hugo Ledoux'' 799 ''X'' 2023, game ''Sylvain Roy'' 799 ''6'' 2023,
          game ''Hugo Ledoux'' 800 ''4'' 2023] 2023
   \<and> sylvain_wins (get_default [(2023 :: int, \<lparr>hugo_wins = 1, sylvain_wins = 1, ties = 0\<rparr>)] 2023 default_h2h)
     = count_puzzles sylvain_better
         [game ''Hugo Ledoux'' 798 ''3'' 2023, game ''Sylvain Roy'' 798 ''5'' 2023,
          game ''Hugo Ledoux'' 799 ''X'' 2023, game ''Sylvain Roy'' 799 ''6'' 2023,
          game ''Hugo Ledoux'' 800 ''4'' 2023] 2023
   \<and> ties (get_default [(2023 :: int, \<lparr>hugo_wins = 1, sylvain_wins = 1, ties = 0\<rparr>)] 2023 default_h2h)
     = count_puzzles tied
         [game ''Hugo Ledoux'' 798 ''3'' 2023, game ''Sylvain Roy'' 798 ''5'' 2023,
          game ''Hugo Ledoux'' 799 ''X'' 2023, game ''Sylvain Roy'' 799 ''6'' 2023,
          game ''Hugo Ledoux'' 800 ''4'' 2023] 2023"
proof -
  let ?rs = "[game ''Hugo Ledoux'' 798 ''3'' 2023, game ''Sylvain Roy'' 798 ''5'' 2023,
      game ''Hugo Ledoux'' 799 ''X'' 2023, game ''Sylvain Roy'' 799 ''6'' 2023,
      game ''Hugo Ledoux'' 800 ''4'' 2023]"
  have h: "calculate_head_to_head ?rs = Inr [(2023, \<lparr>hugo_wins = 1, sylvain_wins = 1, ties = 0\<rparr>)]"
    by code_simp
  from head_to_head_tally [OF h, of 2023] h show ?thesis by blast
qed

text \<open>
  C6. For every year, \<open>hugo_wins + sylvain_wins + ties\<close> is the number of distinct
  puzzle numbers of that year for which each of the two designated players has
  a record (several records of one player for one puzzle count once).
\<close>

theorem head_to_head_total:
  assumes "calculate_head_to_head results = Inr h"
  shows "hugo_wins (get_default h y default_h2h) + sylvain_wins (get_default h y default_h2h)
           + ties (get_default h y default_h2h)
         = int (card {n. has_record results y n ''Hugo Ledoux'' \<and> has_record results y n ''Sylvain Roy''})"
proof -
  from assms obtain pz where "puzzles_loop [] results = Inr pz"
    by (auto simp: calculate_head_to_head_def split: sum.splits)
  then have ok: "\<forall>r \<in> set results. attempts_ok r" by (rule puzzles_loop_ok)
  show ?thesis
    using h2h_counts [OF assms, of y] count_split [of results y] count_both_card [OF ok, of y]
    by simp
qed

theorem head_to_head_total_witness:
  "calculate_head_to_head
     [game ''Hugo Ledoux'' 798 ''3'' 2023, game ''Hugo Ledoux'' 798 ''4'' 2023,
      game ''Sylvain Roy'' 798 ''4'' 2023, game ''Hugo Ledoux'' 799 ''2'' 2023]
   = Inr [(2023, \<lparr>hugo_wins = 0, sylvain_wins = 0, ties = 1\<rparr>)]
   \<and> hugo_wins (get_default [(2023 :: int, \<lparr>hugo_wins = 0, sylvain_wins = 0, ties = 1\<rparr>)] 2023 default_h2h)
       + sylvain_wins (get_default [(2023 :: int, \<lparr>hugo_wins = 0, sylvain_wins = 0, ties = 1\<rparr>)] 2023 default_h2h)
       + ties (get_default [(2023 :: int, \<lparr>hugo_wins = 0, sylvain_wins = 0, ties = 1\<rparr>)] 2023 default_h2h)
     = int (card {n. has_record
                       [game ''Hugo Ledoux'' 798 ''3'' 2023, game ''Hugo Ledoux'' 798 ''4'' 2023,
                        game ''Sylvain Roy'' 798 ''4'' 2023, game ''Hugo Ledoux'' 799 ''2'' 2023]
                       2023 n ''Hugo Ledoux''
                   \<and> has_record
                       [game ''Hugo Ledoux'' 798 ''3'' 2023, game ''Hugo Ledoux'' 798 ''4'' 2023,
                        game ''Sylvain Roy'' 798 ''4'' 2023, game ''Hugo Ledoux'' 799 ''2'' 2023]
                       2023 n ''Sylvain Roy''})
   \<and> int (card {n. has_record
                       [game ''Hugo Ledoux'' 798 ''3'' 2023, game ''Hugo Ledoux'' 798 ''4'' 2023,
                        game ''Sylvain Roy'' 798 ''4'' 2023, game ''Hugo Ledoux'' 799 ''2'' 2023]
                       2023 n ''Hugo Ledoux''
                   \<and> has_record
                       [game ''Hugo Ledoux'' 798 ''3'' 2023, game ''Hugo Ledoux'' 798 ''4'' 2023,
                        game ''Sylvain Roy'' 798 ''4'' 2023, game ''Hugo Ledoux'' 799 ''2'' 2023]
                       2023 n ''Sylvain Roy''}) = 1"
proof -
  let ?rs = "[game ''Hugo Ledoux'' 798 ''3'' 2023, game ''Hugo Ledoux'' 798 ''4'' 2023,
      game ''Sylvain Roy'' 798 ''4'' 2023, game ''Hugo Ledoux'' 799 ''2'' 2023]"
  let ?h = "[(2023::int, \<lparr>hugo_wins = 0, sylvain_wins = 0, ties = 1\<rparr>)]"
  have h: "calculate_head_to_head ?rs = Inr ?h"
    by code_simp
  have sum: "hugo_wins (get_default ?h 2023 default_h2h) + sylvain_wins (get_default ?h 2023 default_h2h)
       + ties (get_default ?h 2023 default_h2h) = 1"
    by (simp add: get_default_def)
  from head_to_head_total [OF h, of 2023] h sum show ?thesis by simp
qed



section \<open>Properties of \<open>parse_html_files\<close>\<close>

lemma ungroup_digits: "list_all is_dc s \<Longrightarrow> list_all is_digit (ungroup s)"
  by (induction s) (auto simp: ungroup_def is_dc_def)

lemma ungroup_idem: "ungroup (ungroup s) = ungroup s"
  by (simp add: ungroup_def)

lemma ungroup_nonempty: "\<exists>c \<in> set s. is_digit c \<Longrightarrow> ungroup s \<noteq> []"
  by (auto simp: ungroup_def filter_empty_conv dest: is_digit_not_sign)

lemma literal_at_append: "literal_at lit (lit @ s) = Some s"
  by (simp add: literal_at_def)

lemma tail_match_here:
  "a = CHR ''X'' \<or> is_digit a \<Longrightarrow> tail_match ('' '' @ [a] @ ''/6'' @ rest) = Some [a]"
  by (auto simp: tail_match_def literal_at_def)

lemma takeWhile_token:
  "list_all is_dc tok \<Longrightarrow> takeWhile is_dc (tok @ '' '' @ s) = tok"
  by (induction tok) (auto simp: is_dc_def is_digit_def)

lemma search_mention:
  assumes "tok \<noteq> []" "list_all is_dc tok" "a = CHR ''X'' \<or> is_digit a"
  shows "re_search_wordle (mention tok a @ rest) = Some (tok, [a])"
proof -
  let ?r = "tok @ '' '' @ [a] @ ''/6'' @ rest"
  from assms(1) obtain k where k: "length tok = Suc k" by (cases tok) auto
  have tw: "length (takeWhile is_dc ?r) = Suc k"
    using takeWhile_token [OF assms(2), of "[a] @ ''/6'' @ rest"] k by simp
  have "drop (Suc k) ?r = '' '' @ [a] @ ''/6'' @ rest" "take (Suc k) ?r = tok"
    using k by simp_all
  then have g: "greedy_group (Suc k) ?r = Some (tok, [a])"
    using tail_match_here [OF assms(3), of rest] by simp
  have "literal_at ''Wordle '' (''Wordle '' @ ?r) = Some ?r" by (rule literal_at_append)
  then have "wordle_match_at (''Wordle '' @ ?r) = Some (tok, [a])"
    unfolding wordle_match_at_def using tw g by simp
  moreover have "mention tok a @ rest = CHR ''W'' # (''ordle '' @ ?r)" by (simp add: mention_def)
  ultimately show ?thesis by simp
qed

lemma message_results_text_cong:
  assumes "re_search_wordle b1 = Some (g1, g2)" "re_search_wordle b2 = Some (g1', g2)"
    and "ungroup g1 = ungroup g1'"
  shows "message_results cp (msg\<lparr>text_div := Some b1\<rparr>) = message_results cp (msg\<lparr>text_div := Some b2\<rparr>)"
proof -
  have f: "filter (\<lambda>c. c \<noteq> CHR '','') g1 = filter (\<lambda>c. c \<noteq> CHR '','') g1'"
    using assms(3) by (simp add: ungroup_def)
  show ?thesis
    using assms(1,2) by (simp add: message_results_def f cong: sum.case_cong)
qed

lemma re_match_date_SomeD:
  assumes "re_match_date s = Some (day, month, yr)"
  shows "s \<noteq> [] \<and> py_int day = Inr (digits_val 0 day) \<and> py_int month = Inr (digits_val 0 month)
     \<and> py_int yr = Inr (digits_val 0 yr)"
proof -
  from assms have len: "10 \<le> length s"
    and d: "day = take 2 s" "list_all is_digit day"
    and m: "month = take 2 (drop 3 s)" "list_all is_digit month"
    and y: "yr = take 4 (drop 6 s)" "list_all is_digit yr"
    by (auto simp: re_match_date_def Let_def split: if_splits)
  from len d(1) m(1) y(1) have l: "length day = 2" "length month = 2" "length yr = 4"
    by simp_all
  then have ne: "day \<noteq> []" "month \<noteq> []" "yr \<noteq> []" by auto
  from len have "s \<noteq> []" by auto
  then show ?thesis
    using py_int_digits [OF ne(1) d(2)] py_int_digits [OF ne(2) m(2)] py_int_digits [OF ne(3) y(2)] l
    by (simp add: int_max_str_digits_def)
qed

lemma message_results_mention:
  assumes "re_search_wordle body = Some (g1, [a])"
    and "list_all is_digit (ungroup g1)" and "ungroup g1 \<noteq> []"
    and "name \<noteq> []"
  shows "length (ungroup g1) \<le> int_max_str_digits \<Longrightarrow> details msg = Some (Some title) \<Longrightarrow>
         re_match_date title = Some (day, month, yr) \<Longrightarrow>
         datetime (digits_val 0 yr) (digits_val 0 month) (digits_val 0 day) = Inr dt \<Longrightarrow>
         message_results (Some name) (msg\<lparr>text_div := Some body\<rparr>)
           = Inr [\<lparr>player = name, puzzle_num = digits_val 0 (ungroup g1), attempts = [a],
                   date = dt, year = fst dt\<rparr>]"
    and "int_max_str_digits < length (ungroup g1) \<Longrightarrow>
         message_results (Some name) (msg\<lparr>text_div := Some body\<rparr>) = Inl ValueError"
proof -
  have f: "filter (\<lambda>c. c \<noteq> CHR '','') g1 = ungroup g1" by (simp add: ungroup_def)
  note p = py_int_digits [OF assms(3) assms(2)]
  show "message_results (Some name) (msg\<lparr>text_div := Some body\<rparr>) = Inl ValueError"
    if "int_max_str_digits < length (ungroup g1)"
    using that assms(1,4) p by (simp add: message_results_def truthy_def f)
  show "message_results (Some name) (msg\<lparr>text_div := Some body\<rparr>)
           = Inr [\<lparr>player = name, puzzle_num = digits_val 0 (ungroup g1), attempts = [a],
                   date = dt, year = fst dt\<rparr>]"
    if "length (ungroup g1) \<le> int_max_str_digits" "details msg = Some (Some title)"
      "re_match_date title = Some (day, month, yr)"
      "datetime (digits_val 0 yr) (digits_val 0 month) (digits_val 0 day) = Inr dt"
    using that assms(1,4) p re_match_date_SomeD [OF that(3)]
    by (simp add: message_results_def truthy_def f)
qed

text \<open>
  C8. A mention whose puzzle number is written with digits and commas (at
  least one digit) and the mention with the commas removed: both are found by
  the pattern, and the block yields the same records (or the same exception)
  with either text. For a known author and a title with a valid date, the block
  yields with either text the one record whose puzzle number is the decimal
  value of the digits of the token; when the token has more digits than \<open>int\<close>
  converts, the block raises \<open>ValueError\<close> with either text.
\<close>

theorem separators_stripped:
  assumes "list_all is_dc tok" and "\<exists>c \<in> set tok. is_digit c" and "a = CHR ''X'' \<or> is_digit a"
  shows "re_search_wordle (mention tok a @ rest) = Some (tok, [a])
     \<and> re_search_wordle (mention (ungroup tok) a @ rest) = Some (ungroup tok, [a])
     \<and> message_results cp (msg\<lparr>text_div := Some (mention tok a @ rest)\<rparr>)
       = message_results cp (msg\<lparr>text_div := Some (mention (ungroup tok) a @ rest)\<rparr>)
     \<and> (name \<noteq> [] \<and> length (ungroup tok) \<le> int_max_str_digits
          \<and> details msg = Some (Some title) \<and> re_match_date title = Some (day, month, yr)
          \<and> datetime (digits_val 0 yr) (digits_val 0 month) (digits_val 0 day) = Inr dt \<longrightarrow>
        message_results (Some name) (msg\<lparr>text_div := Some (mention tok a @ rest)\<rparr>)
          = Inr [\<lparr>player = name, puzzle_num = digits_val 0 (ungroup tok), attempts = [a],
                  date = dt, year = fst dt\<rparr>]
        \<and> message_results (Some name) (msg\<lparr>text_div := Some (mention (ungroup tok) a @ rest)\<rparr>)
          = Inr [\<lparr>player = name, puzzle_num = digits_val 0 (ungroup tok), attempts = [a],
                  date = dt, year = fst dt\<rparr>])
     \<and> (name \<noteq> [] \<and> int_max_str_digits < length (ungroup tok) \<longrightarrow>
        message_results (Some name) (msg\<lparr>text_div := Some (mention tok a @ rest)\<rparr>) = Inl ValueError
        \<and> message_results (Some name) (msg\<lparr>text_div := Some (mention (ungroup tok) a @ rest)\<rparr>)
          = Inl ValueError)"
proof -
  from assms(2) have ne: "tok \<noteq> []" by auto
  have une: "ungroup tok \<noteq> []" using assms(2) by (rule ungroup_nonempty)
  have ud: "list_all is_digit (ungroup tok)" using assms(1) by (rule ungroup_digits)
  then have udc: "list_all is_dc (ungroup tok)" by (simp add: list_all_iff is_dc_def)
  have uu: "ungroup (ungroup tok) = ungroup tok" by (rule ungroup_idem)
  have s1: "re_search_wordle (mention tok a @ rest) = Some (tok, [a])"
    using ne assms(1,3) by (rule search_mention)
  have s2: "re_search_wordle (mention (ungroup tok) a @ rest) = Some (ungroup tok, [a])"
    using une udc assms(3) by (rule search_mention)
  have eq: "message_results cp (msg\<lparr>text_div := Some (mention tok a @ rest)\<rparr>)
       = message_results cp (msg\<lparr>text_div := Some (mention (ungroup tok) a @ rest)\<rparr>)"
    using s1 s2 uu [symmetric] by (rule message_results_text_cong)
  have ud': "list_all is_digit (ungroup (ungroup tok))" "ungroup (ungroup tok) \<noteq> []"
    using ud une by (simp_all add: uu)
  have rec: "message_results (Some name) (msg\<lparr>text_div := Some (mention tok a @ rest)\<rparr>)
          = Inr [\<lparr>player = name, puzzle_num = digits_val 0 (ungroup tok), attempts = [a],
                  date = dt, year = fst dt\<rparr>]
        \<and> message_results (Some name) (msg\<lparr>text_div := Some (mention (ungroup tok) a @ rest)\<rparr>)
          = Inr [\<lparr>player = name, puzzle_num = digits_val 0 (ungroup tok), attempts = [a],
                  date = dt, year = fst dt\<rparr>]"
    if h: "name \<noteq> []" "length (ungroup tok) \<le> int_max_str_digits"
      "details msg = Some (Some title)" "re_match_date title = Some (day, month, yr)"
      "datetime (digits_val 0 yr) (digits_val 0 month) (digits_val 0 day) = Inr dt"
  proof
    show "message_results (Some name) (msg\<lparr>text_div := Some (mention tok a @ rest)\<rparr>)
          = Inr [\<lparr>player = name, puzzle_num = digits_val 0 (ungroup tok), attempts = [a],
                  date = dt, year = fst dt\<rparr>]"
      using s1 ud une h by (rule message_results_mention(1))
    from h(2) have h2: "length (ungroup (ungroup tok)) \<le> int_max_str_digits" by (simp add: uu)
    have "message_results (Some name) (msg\<lparr>text_div := Some (mention (ungroup tok) a @ rest)\<rparr>)
          = Inr [\<lparr>player = name, puzzle_num = digits_val 0 (ungroup (ungroup tok)), attempts = [a],
                  date = dt, year = fst dt\<rparr>]"
      using s2 ud' h(1) h2 h(3,4,5) by (rule message_results_mention(1))
    then show "message_results (Some name) (msg\<lparr>text_div := Some (mention (ungroup tok) a @ rest)\<rparr>)
          = Inr [\<lparr>player = name, puzzle_num = digits_val 0 (ungroup tok), attempts = [a],
                  date = dt, year = fst dt\<rparr>]"
      by (simp only: uu)
  qed
  have big: "message_results (Some name) (msg\<lparr>text_div := Some (mention tok a @ rest)\<rparr>) = Inl ValueError
        \<and> message_results (Some name) (msg\<lparr>text_div := Some (mention (ungroup tok) a @ rest)\<rparr>)
          = Inl ValueError"
    if h: "name \<noteq> []" "int_max_str_digits < length (ungroup tok)"
  proof
    show "message_results (Some name) (msg\<lparr>text_div := Some (mention tok a @ rest)\<rparr>) = Inl ValueError"
      using s1 ud une h by (rule message_results_mention(2))
    from h(2) have "int_max_str_digits < length (ungroup (ungroup tok))" by (simp add: uu)
    with s2 ud' h(1)
    show "message_results (Some name) (msg\<lparr>text_div := Some (mention (ungroup tok) a @ rest)\<rparr>)
          = Inl ValueError"
      by (rule message_results_mention(2))
  qed
  from rec have c4: "name \<noteq> [] \<and> length (ungroup tok) \<le> int_max_str_digits
          \<and> details msg = Some (Some title) \<and> re_match_date title = Some (day, month, yr)
          \<and> datetime (digits_val 0 yr) (digits_val 0 month) (digits_val 0 day) = Inr dt \<longrightarrow>
        message_results (Some name) (msg\<lparr>text_div := Some (mention tok a @ rest)\<rparr>)
          = Inr [\<lparr>player = name, puzzle_num = digits_val 0 (ungroup tok), attempts = [a],
                  date = dt, year = fst dt\<rparr>]
        \<and> message_results (Some name) (msg\<lparr>text_div := Some (mention (ungroup tok) a @ rest)\<rparr>)
          = Inr [\<lparr>player = name, puzzle_num = digits_val 0 (ungroup tok), attempts = [a],
                  date = dt, year = fst dt\<rparr>]"
    by (intro impI) (elim conjE)
  from big have c5: "name \<noteq> [] \<and> int_max_str_digits < length (ungroup tok) \<longrightarrow>
        message_results (Some name) (msg\<lparr>text_div := Some (mention tok a @ rest)\<rparr>) = Inl ValueError
        \<and> message_results (Some name) (msg\<lparr>text_div := Some (mention (ungroup tok) a @ rest)\<rparr>)
          = Inl ValueError"
    by (intro impI) (elim conjE)
  from s1 s2 eq c4 c5 show ?thesis by (intro conjI)
qed

lemma take_takeWhile: "k \<le> length (takeWhile P r) \<Longrightarrow> list_all P (take k r)"
proof (induction r arbitrary: k)
  case Nil
  then show ?case by simp
next
  case (Cons x r)
  then show ?case by (cases k) (auto split: if_splits)
qed

lemma tail_match_SomeD:
  "tail_match s = Some g2 \<Longrightarrow> \<exists>a. g2 = [a] \<and> (a = CHR ''X'' \<or> is_digit a)"
  by (auto simp: tail_match_def split: option.splits list.splits if_splits)

lemma greedy_group_SomeD:
  "greedy_group k r = Some (g1, g2) \<Longrightarrow> k \<le> length (takeWhile is_dc r) \<Longrightarrow>
   g1 \<noteq> [] \<and> list_all is_dc g1 \<and> (\<exists>a. g2 = [a] \<and> (a = CHR ''X'' \<or> is_digit a))"
proof (induction k)
  case 0
  then show ?case by simp
next
  case (Suc k)
  show ?case
  proof (cases "tail_match (drop (Suc k) r)")
    case None
    with Suc show ?thesis by simp
  next
    case (Some g)
    with Suc.prems have g: "g1 = take (Suc k) r" "g2 = g" by simp_all
    have "Suc k \<le> length r"
      using Suc.prems(2) length_takeWhile_le [of is_dc r] by linarith
    then have "g1 \<noteq> []" unfolding g by (cases r) auto
    moreover have "list_all is_dc g1" unfolding g using Suc.prems(2) by (rule take_takeWhile)
    ultimately show ?thesis using tail_match_SomeD [OF Some] g by simp
  qed
qed

lemma re_search_wordle_SomeD:
  "re_search_wordle t = Some (g1, g2) \<Longrightarrow>
   g1 \<noteq> [] \<and> list_all is_dc g1 \<and> (\<exists>a. g2 = [a] \<and> (a = CHR ''X'' \<or> is_digit a))"
proof (induction t)
  case Nil
  then show ?case by simp
next
  case (Cons c cs)
  show ?case
  proof (cases "wordle_match_at (c # cs)")
    case None
    with Cons show ?thesis by simp
  next
    case (Some g)
    with Cons.prems have "wordle_match_at (c # cs) = Some (g1, g2)" by simp
    then show ?thesis
      by (auto simp: wordle_match_at_def split: option.splits dest!: greedy_group_SomeD)
  qed
qed

lemma datetime_valid: "datetime y m d = Inr dt \<Longrightarrow> valid_date dt \<and> fst dt = y"
  by (auto simp: datetime_def split: if_splits)

lemma message_results_fields:
  assumes "message_results cp msg = Inr new" "r \<in> set new"
  shows "cp = Some (player r) \<and> player r \<noteq> [] \<and> 0 \<le> puzzle_num r
     \<and> valid_date (date r) \<and> year r = fst (date r)
     \<and> (\<exists>a. attempts r = [a] \<and> (a = CHR ''X'' \<or> is_digit a))"
proof -
  from assms have "\<exists>body g1 g2 pnum dt.
      text_div msg = Some body \<and> re_search_wordle body = Some (g1, g2) \<and> truthy cp
      \<and> py_int (filter (\<lambda>c. c \<noteq> CHR '','') g1) = Inr pnum
      \<and> (\<exists>y m d. datetime y m d = Inr dt)
      \<and> r = \<lparr>player = the cp, puzzle_num = pnum, attempts = g2, date = dt, year = fst dt\<rparr>"
    by (simp add: message_results_def split: option.splits sum.splits if_splits prod.splits) force
  then obtain body g1 g2 pnum dt where
    body: "text_div msg = Some body" and
    m: "re_search_wordle body = Some (g1, g2)" and
    cp: "truthy cp" and
    pn: "py_int (filter (\<lambda>c. c \<noteq> CHR '','') g1) = Inr pnum" and
    dt: "\<exists>y m d. datetime y m d = Inr dt" and
    r: "r = \<lparr>player = the cp, puzzle_num = pnum, attempts = g2, date = dt, year = fst dt\<rparr>"
    by blast
  from re_search_wordle_SomeD [OF m] have g1: "list_all is_dc g1"
    and g2: "\<exists>a. g2 = [a] \<and> (a = CHR ''X'' \<or> is_digit a)" by simp_all
  have ud: "list_all is_digit (ungroup g1)" using g1 by (rule ungroup_digits)
  have "ungroup g1 \<noteq> []" using pn py_int_empty by (auto simp: ungroup_def)
  from py_int_digits [OF this ud] pn have "pnum = digits_val 0 (ungroup g1)"
    by (simp add: ungroup_def split: if_splits)
  then have "0 \<le> pnum" using digits_val_nonneg [OF ud, of 0] by simp
  moreover from cp obtain name where "cp = Some name" "name \<noteq> []"
    by (auto simp: truthy_def split: option.splits)
  moreover from dt have "valid_date dt" by (auto dest: datetime_valid)
  ultimately show ?thesis using r g2 by simp
qed

lemma messages_loop_records:
  assumes "messages_loop cp results msgs = Inr out" "r \<in> set out"
  shows "r \<in> set results \<or> (\<exists>cp' msg new. message_results cp' msg = Inr new \<and> r \<in> set new)"
  using assms
proof (induction msgs arbitrary: cp results)
  case Nil
  then show ?case by simp
next
  case (Cons msg msgs)
  then obtain new where new: "message_results (next_player cp msg) msg = Inr new"
    and rest: "messages_loop (next_player cp msg) (results @ new) msgs = Inr out"
    by (auto simp: Let_def split: sum.splits)
  from Cons.IH [OF rest Cons.prems(2)] new show ?case by auto
qed

lemma files_loop_records:
  assumes "files_loop results docs = Inr out" "r \<in> set out"
  shows "r \<in> set results \<or> (\<exists>cp' msg new. message_results cp' msg = Inr new \<and> r \<in> set new)"
  using assms
proof (induction docs arbitrary: results)
  case Nil
  then show ?case by simp
next
  case (Cons doc docs)
  then obtain mid where mid: "messages_loop None results doc = Inr mid"
    and rest: "files_loop mid docs = Inr out"
    by (auto split: sum.splits)
  from Cons.IH [OF rest Cons.prems(2)] messages_loop_records [OF mid] show ?case by blast
qed

lemma parse_html_files_fields:
  assumes "parse_html_files docs = Inr out" "r \<in> set out"
  shows "player r \<noteq> [] \<and> 0 \<le> puzzle_num r \<and> valid_date (date r) \<and> year r = fst (date r)
     \<and> (\<exists>a. attempts r = [a] \<and> (a = CHR ''X'' \<or> is_digit a))"
proof -
  from files_loop_records [OF assms(1) [unfolded parse_html_files_def] assms(2)]
  obtain cp' msg new where "message_results cp' msg = Inr new" "r \<in> set new" by auto
  from message_results_fields [OF this] show ?thesis by simp
qed

lemma messages_loop_acc:
  "messages_loop cp results msgs =
     (case messages_loop cp [] msgs of Inl e \<Rightarrow> Inl e | Inr new \<Rightarrow> Inr (results @ new))"
proof (induction msgs arbitrary: cp results)
  case Nil
  then show ?case by simp
next
  case (Cons msg msgs)
  show ?case
  proof (cases "message_results (next_player cp msg) msg")
    case (Inl e)
    then show ?thesis by (simp add: Let_def)
  next
    case (Inr new)
    show ?thesis
      using Cons.IH [of "next_player cp msg" "results @ new"] Cons.IH [of "next_player cp msg" new]
      by (simp add: Let_def Inr split: sum.splits)
  qed
qed

lemma files_loop_append:
  "files_loop results (docs @ [doc]) =
     (case files_loop results docs of Inl e \<Rightarrow> Inl e | Inr rs \<Rightarrow> messages_loop None rs doc)"
  by (induction docs arbitrary: results) (auto split: sum.splits)

lemma parse_html_files_append:
  "parse_html_files (docs @ [doc]) =
     (case parse_html_files docs of
        Inl e \<Rightarrow> Inl e
      | Inr rs \<Rightarrow> (case parse_html_files [doc] of Inl e \<Rightarrow> Inl e | Inr rs' \<Rightarrow> Inr (rs @ rs')))"
proof -
  have one: "parse_html_files [doc] = messages_loop None [] doc"
    by (simp add: parse_html_files_def split: sum.splits)
  show ?thesis
  proof (cases "files_loop [] docs")
    case (Inl e)
    then show ?thesis by (simp add: parse_html_files_def files_loop_append)
  next
    case (Inr rs)
    have "files_loop [] (docs @ [doc]) = messages_loop None rs doc"
      by (simp add: files_loop_append Inr)
    also have "\<dots> = (case messages_loop None [] doc of Inl e \<Rightarrow> Inl e | Inr new \<Rightarrow> Inr (rs @ new))"
      by (rule messages_loop_acc)
    finally show ?thesis
      unfolding one by (simp add: parse_html_files_def Inr)
  qed
qed

lemma message_results_no_author: "\<not> truthy cp \<Longrightarrow> message_results cp msg = Inr []"
  by (simp add: message_results_def split: option.splits prod.splits)

text \<open>
  C9. A block with an author label puts that label (normalised) in force,
  whatever was in force before; a block without one leaves the author in force
  unchanged and is read under it, so its records carry the label seen last: a
  labelled block followed by a block without label are both read under the
  label of the first. Each document is read starting with no author, whatever
  the documents before it held: the records of a list of documents are those of
  the earlier documents followed by those of the last one read alone. A block
  read while no author is in force (none seen yet in this document, or an empty
  label) yields no record and raises nothing, whatever its text.
\<close>

theorem author_sticky_within_document:
  "(from_name msg = None \<longrightarrow> next_player cp msg = cp)
   \<and> (from_name msg = Some n \<longrightarrow> next_player cp msg = Some (re_sub_via (strip n)))
   \<and> (message_results cp msg = Inr new \<longrightarrow> (\<forall>r \<in> set new. cp = Some (player r)))
   \<and> (from_name msg = None \<longrightarrow>
        messages_loop cp results (msg # msgs) =
          (case message_results cp msg of
             Inl e \<Rightarrow> Inl e
           | Inr new \<Rightarrow> messages_loop cp (results @ new) msgs))
   \<and> (from_name msg = Some n \<and> from_name nxt = None \<longrightarrow>
        messages_loop cp results (msg # nxt # msgs) =
          (case message_results (Some (re_sub_via (strip n))) msg of
             Inl e \<Rightarrow> Inl e
           | Inr new1 \<Rightarrow>
               (case message_results (Some (re_sub_via (strip n))) nxt of
                  Inl e \<Rightarrow> Inl e
                | Inr new2 \<Rightarrow>
                    messages_loop (Some (re_sub_via (strip n))) ((results @ new1) @ new2) msgs)))
   \<and> parse_html_files (docs @ [doc]) =
        (case parse_html_files docs of
           Inl e \<Rightarrow> Inl e
         | Inr rs \<Rightarrow> (case parse_html_files [doc] of Inl e \<Rightarrow> Inl e | Inr rs' \<Rightarrow> Inr (rs @ rs')))
   \<and> (from_name msg = None \<longrightarrow> parse_html_files [msg # msgs] = parse_html_files [msgs])
   \<and> (\<not> truthy cp \<longrightarrow> message_results cp msg = Inr [])"
proof -
  have a: "from_name msg = None \<longrightarrow> next_player cp msg = cp"
    by (simp add: next_player_def)
  have a': "from_name msg = Some n \<longrightarrow> next_player cp msg = Some (re_sub_via (strip n))"
    by (simp add: next_player_def)
  have b: "message_results cp msg = Inr new \<longrightarrow> (\<forall>r \<in> set new. cp = Some (player r))"
    using message_results_fields [of cp msg new] by blast
  have c: "from_name msg = None \<longrightarrow>
        messages_loop cp results (msg # msgs) =
          (case message_results cp msg of
             Inl e \<Rightarrow> Inl e
           | Inr new \<Rightarrow> messages_loop cp (results @ new) msgs)"
    by (simp add: next_player_def Let_def)
  have c': "from_name msg = Some n \<and> from_name nxt = None \<longrightarrow>
        messages_loop cp results (msg # nxt # msgs) =
          (case message_results (Some (re_sub_via (strip n))) msg of
             Inl e \<Rightarrow> Inl e
           | Inr new1 \<Rightarrow>
               (case message_results (Some (re_sub_via (strip n))) nxt of
                  Inl e \<Rightarrow> Inl e
                | Inr new2 \<Rightarrow>
                    messages_loop (Some (re_sub_via (strip n))) ((results @ new1) @ new2) msgs))"
    by (simp add: next_player_def Let_def cong: sum.case_cong)
  have d: "from_name msg = None \<longrightarrow> parse_html_files [msg # msgs] = parse_html_files [msgs]"
    by (simp add: parse_html_files_def next_player_def Let_def
        message_results_no_author [of None msg] truthy_def)
  from a a' b c c' d parse_html_files_append [of docs doc] message_results_no_author [of cp msg]
  show ?thesis by (intro conjI impI) simp_all
qed

theorem author_sticky_within_document_witness:
  "from_name (block (Some ''Sylvain Roy'') ''Wordle 798 5/6'' ''26.08.2023 09:10:00 UTC+01:00'')
     = Some ''Sylvain Roy''
   \<and> from_name (block None ''Wordle 799 3/6'' ''27.08.2023 08:38:51 UTC+01:00'') = None
   \<and> \<not> truthy None
   \<and> next_player (Some ''Hugo Ledoux'')
        (block (Some ''Sylvain Roy'') ''Wordle 798 5/6'' ''26.08.2023 09:10:00 UTC+01:00'')
       = Some ''Sylvain Roy''
   \<and> next_player (Some ''Sylvain Roy'') (block None ''Wordle 799 3/6'' ''27.08.2023 08:38:51 UTC+01:00'')
       = Some ''Sylvain Roy''
   \<and> message_results (Some ''Sylvain Roy'') (block None ''Wordle 799 3/6'' ''27.08.2023 08:38:51 UTC+01:00'')
       = Inr [\<lparr>player = ''Sylvain Roy'', puzzle_num = 799, attempts = ''3'', date = (2023, 8, 27), year = 2023\<rparr>]
   \<and> Some ''Sylvain Roy''
       = Some (player \<lparr>player = ''Sylvain Roy'', puzzle_num = 799, attempts = ''3'', date = (2023, 8, 27), year = 2023\<rparr>)
   \<and> messages_loop (Some ''Hugo Ledoux'')
        [\<lparr>player = ''Hugo Ledoux'', puzzle_num = 798, attempts = ''4'', date = (2023, 8, 26), year = 2023\<rparr>]
        [block (Some ''Sylvain Roy'') ''Wordle 798 5/6'' ''26.08.2023 09:10:00 UTC+01:00'',
         block None ''Wordle 799 3/6'' ''27.08.2023 08:38:51 UTC+01:00'']
       = Inr [\<lparr>player = ''Hugo Ledoux'', puzzle_num = 798, attempts = ''4'', date = (2023, 8, 26), year = 2023\<rparr>,
              \<lparr>player = ''Sylvain Roy'', puzzle_num = 798, attempts = ''5'', date = (2023, 8, 26), year = 2023\<rparr>,
              \<lparr>player = ''Sylvain Roy'', puzzle_num = 799, attempts = ''3'', date = (2023, 8, 27), year = 2023\<rparr>]
   \<and> parse_html_files
        [[block (Some ''Hugo Ledoux'') ''Wordle 798 4/6'' ''26.08.2023 08:38:51 UTC+01:00'',
          block (Some ''Sylvain Roy'') ''Wordle 798 5/6'' ''26.08.2023 09:10:00 UTC+01:00'',
          block None ''Wordle 799 3/6'' ''27.08.2023 08:38:51 UTC+01:00'']]
       = Inr [\<lparr>player = ''Hugo Ledoux'', puzzle_num = 798, attempts = ''4'', date = (2023, 8, 26), year = 2023\<rparr>,
              \<lparr>player = ''Sylvain Roy'', puzzle_num = 798, attempts = ''5'', date = (2023, 8, 26), year = 2023\<rparr>,
              \<lparr>player = ''Sylvain Roy'', puzzle_num = 799, attempts = ''3'', date = (2023, 8, 27), year = 2023\<rparr>]
   \<and> message_results None (block None ''Wordle 799 3/6'' ''27.08.2023 08:38:51 UTC+01:00'') = Inr []
   \<and> parse_html_files [[block None ''Wordle 799 3/6'' ''27.08.2023 08:38:51 UTC+01:00'']]
       = parse_html_files [[]]
   \<and> parse_html_files
        ([[block (Some ''Hugo Ledoux'') ''Wordle 798 4/6'' ''26.08.2023 08:38:51 UTC+01:00'']]
         @ [[block None ''Wordle 799 3/6'' ''27.08.2023 08:38:51 UTC+01:00'']])
       = Inr [\<lparr>player = ''Hugo Ledoux'', puzzle_num = 798, attempts = ''4'', date = (2023, 8, 26), year = 2023\<rparr>]"
proof -
  let ?mh = "block (Some ''Hugo Ledoux'') ''Wordle 798 4/6'' ''26.08.2023 08:38:51 UTC+01:00''"
  let ?ms = "block (Some ''Sylvain Roy'') ''Wordle 798 5/6'' ''26.08.2023 09:10:00 UTC+01:00''"
  let ?mn = "block None ''Wordle 799 3/6'' ''27.08.2023 08:38:51 UTC+01:00''"
  let ?rh = "\<lparr>player = ''Hugo Ledoux'', puzzle_num = 798, attempts = ''4'', date = (2023, 8, 26), year = 2023\<rparr>"
  let ?rs = "\<lparr>player = ''Sylvain Roy'', puzzle_num = 798, attempts = ''5'', date = (2023, 8, 26), year = 2023\<rparr>"
  let ?rn = "\<lparr>player = ''Sylvain Roy'', puzzle_num = 799, attempts = ''3'', date = (2023, 8, 27), year = 2023\<rparr>"
  have h1: "from_name ?ms = Some ''Sylvain Roy''" by (simp add: block_def)
  have h2: "from_name ?mn = None" by (simp add: block_def)
  have h3: "\<not> truthy None" by (simp add: truthy_def)
  have n: "re_sub_via (strip ''Sylvain Roy'') = ''Sylvain Roy''" by code_simp
  have e1: "message_results (Some ''Sylvain Roy'') ?ms = Inr [?rs]" by code_simp
  have e2: "message_results (Some ''Sylvain Roy'') ?mn = Inr [?rn]" by code_simp
  have e3: "parse_html_files [[?mh, ?ms, ?mn]] = Inr [?rh, ?rs, ?rn]" by code_simp
  have e4: "parse_html_files [[?mh]] = Inr [?rh]" by code_simp
  have e5: "parse_html_files [[]] = Inr []" by code_simp
  note t1 = author_sticky_within_document
    [where msg = ?ms and n = "''Sylvain Roy''" and cp = "Some ''Hugo Ledoux''" and nxt = ?mn
      and results = "[?rh]" and msgs = "[]" and new = "[]" and docs = "[]" and doc = "[]"]
  note t2 = author_sticky_within_document
    [where msg = ?mn and n = "[]" and cp = "Some ''Sylvain Roy''" and nxt = ?mn
      and results = "[]" and msgs = "[]" and new = "[?rn]" and docs = "[[?mh]]" and doc = "[?mn]"]
  note t3 = author_sticky_within_document
    [where msg = ?mn and n = "[]" and cp = None and nxt = ?mn
      and results = "[]" and msgs = "[]" and new = "[]" and docs = "[]" and doc = "[]"]
  from t1 h1 h2 n e1 e2
  have w1: "next_player (Some ''Hugo Ledoux'') ?ms = Some ''Sylvain Roy''"
    and w2: "messages_loop (Some ''Hugo Ledoux'') [?rh] [?ms, ?mn] = Inr [?rh, ?rs, ?rn]"
    by (simp_all del: messages_loop.simps(2))
  from t2 h2 e2 e4 e5
  have w3: "next_player (Some ''Sylvain Roy'') ?mn = Some ''Sylvain Roy''"
    and w4: "parse_html_files ([[?mh]] @ [[?mn]]) = Inr [?rh]"
    and w5: "parse_html_files [[?mn]] = parse_html_files [[]]"
    by simp_all
  from t3 h3 have w6: "message_results None ?mn = Inr []" by simp
  from h1 h2 h3 w1 w2 w3 w4 w5 w6 e2 e3 show ?thesis by simp
qed

text \<open>
  C10. The text \<open>Wordle , 3/6\<close> matches the pattern with the first group \<open>,\<close>;
  with the commas removed the group is empty and \<open>int\<close> raises \<open>ValueError\<close>, so
  \<open>parse_html_files\<close> raises on a document with this message and a known author.
\<close>

theorem comma_only_number_raises:
  "re_search_wordle ''Wordle , 3/6'' = Some ('','', ''3'')
   \<and> py_int (filter (\<lambda>c. c \<noteq> CHR '','') '','') = Inl ValueError
   \<and> parse_html_files
        [[block (Some ''Hugo Ledoux'') ''Wordle , 3/6'' ''26.08.2023 08:38:51 UTC+01:00'']]
      = Inl ValueError"
  by code_simp

text \<open>
  C1. The pattern takes any digit as the attempts token: the mentions
  \<open>Wordle 798 0/6\<close> and \<open>Wordle 799 9/6\<close> yield records whose attempts are \<open>0\<close> and
  \<open>9\<close>, outside 1..6 and not the mark \<open>X\<close>.
\<close>

theorem attempts_digit_outside_range_emitted:
  "parse_html_files
     [[block (Some ''Hugo Ledoux'') ''Wordle 798 0/6'' ''26.08.2023 08:38:51 UTC+01:00'',
       block None ''Wordle 799 9/6'' ''27.08.2023 08:38:51 UTC+01:00'']]
   = Inr [\<lparr>player = ''Hugo Ledoux'', puzzle_num = 798, attempts = ''0'', date = (2023, 8, 26), year = 2023\<rparr>,
          \<lparr>player = ''Hugo Ledoux'', puzzle_num = 799, attempts = ''9'', date = (2023, 8, 27), year = 2023\<rparr>]"
  by code_simp

text \<open>
  C7, as stated, fails: the mention \<open>Wordle 0 3/6\<close> yields a record with puzzle
  number 0.
\<close>

theorem puzzle_number_zero_emitted:
  "parse_html_files
     [[block (Some ''Hugo Ledoux'') ''Wordle 0 3/6'' ''26.08.2023 08:38:51 UTC+01:00'']]
   = Inr [\<lparr>player = ''Hugo Ledoux'', puzzle_num = 0, attempts = ''3'', date = (2023, 8, 26), year = 2023\<rparr>]
   \<and> \<not> 1 \<le> puzzle_num
         \<lparr>player = ''Hugo Ledoux'', puzzle_num = 0, attempts = ''3'', date = (2023, 8, 26), year = 2023\<rparr>"
proof -
  have "parse_html_files
     [[block (Some ''Hugo Ledoux'') ''Wordle 0 3/6'' ''26.08.2023 08:38:51 UTC+01:00'']]
   = Inr [\<lparr>player = ''Hugo Ledoux'', puzzle_num = 0, attempts = ''3'', date = (2023, 8, 26), year = 2023\<rparr>]"
    by code_simp
  then show ?thesis by simp
qed

text \<open>
  C7, amended. Every record that \<open>parse_html_files\<close> returns has a puzzle number
  that is not negative, a non-empty player, a date that is a day of the calendar,
  and the year of that date.
\<close>

theorem emitted_record_fields:
  assumes "parse_html_files docs = Inr out" and "r \<in> set out"
  shows "0 \<le> puzzle_num r \<and> player r \<noteq> [] \<and> valid_date (date r) \<and> year r = fst (date r)"
  using parse_html_files_fields [OF assms] by simp

theorem emitted_record_fields_witness:
  "parse_html_files
     [[block (Some ''Hugo Ledoux via @WordleBot'') ''Wordle 1,292 3/6'' ''29.02.2024 08:38:51 UTC+01:00'']]
   = Inr [\<lparr>player = ''Hugo Ledoux'', puzzle_num = 1292, attempts = ''3'', date = (2024, 2, 29), year = 2024\<rparr>]
   \<and> 0 \<le> puzzle_num \<lparr>player = ''Hugo Ledoux'', puzzle_num = 1292, attempts = ''3'', date = (2024, 2, 29), year = 2024\<rparr>
   \<and> player \<lparr>player = ''Hugo Ledoux'', puzzle_num = 1292, attempts = ''3'', date = (2024, 2, 29), year = 2024\<rparr> \<noteq> []
   \<and> valid_date (date \<lparr>player = ''Hugo Ledoux'', puzzle_num = 1292, attempts = ''3'', date = (2024, 2, 29), year = 2024\<rparr>)"
proof -
  let ?r = "\<lparr>player = ''Hugo Ledoux'', puzzle_num = 1292, attempts = ''3'', date = (2024, 2, 29), year = 2024\<rparr>"
  have h: "parse_html_files
     [[block (Some ''Hugo Ledoux via @WordleBot'') ''Wordle 1,292 3/6'' ''29.02.2024 08:38:51 UTC+01:00'']]
   = Inr [?r]"
    by code_simp
  have m: "?r \<in> set [?r]" by simp
  from emitted_record_fields [OF h m] h show ?thesis by blast
qed

theorem separators_stripped_witness:
  "list_all is_dc ''1,292'' \<and> (CHR ''3'' = CHR ''X'' \<or> is_digit CHR ''3'')
   \<and> ''Hugo Ledoux'' \<noteq> [] \<and> length (ungroup ''1,292'') \<le> int_max_str_digits
   \<and> re_match_date ''29.02.2024 08:38:51 UTC+01:00'' = Some (''29'', ''02'', ''2024'')
   \<and> datetime (digits_val 0 ''2024'') (digits_val 0 ''02'') (digits_val 0 ''29'') = Inr (2024, 2, 29)
   \<and> re_search_wordle (mention ''1,292'' CHR ''3'' @ '' nice'') = Some (''1,292'', ''3'')
   \<and> re_search_wordle (mention (ungroup ''1,292'') CHR ''3'' @ '' nice'') = Some (ungroup ''1,292'', ''3'')
   \<and> digits_val 0 (ungroup ''1,292'') = 1292
   \<and> message_results (Some ''Hugo Ledoux'')
        (block None (mention ''1,292'' CHR ''3'' @ '' nice'') ''29.02.2024 08:38:51 UTC+01:00'')
     = Inr [\<lparr>player = ''Hugo Ledoux'', puzzle_num = 1292, attempts = ''3'',
             date = (2024, 2, 29), year = 2024\<rparr>]
   \<and> message_results (Some ''Hugo Ledoux'')
        (block None (mention (ungroup ''1,292'') CHR ''3'' @ '' nice'') ''29.02.2024 08:38:51 UTC+01:00'')
     = Inr [\<lparr>player = ''Hugo Ledoux'', puzzle_num = 1292, attempts = ''3'',
             date = (2024, 2, 29), year = 2024\<rparr>]"
proof -
  let ?title = "''29.02.2024 08:38:51 UTC+01:00''"
  have h1: "list_all is_dc ''1,292''" by (simp add: is_dc_def is_digit_def)
  have h2: "\<exists>c \<in> set ''1,292''. is_digit c" by (simp add: is_digit_def)
  have h3: "CHR ''3'' = CHR ''X'' \<or> is_digit CHR ''3''" by (simp add: is_digit_def)
  have h4: "length (ungroup ''1,292'') \<le> int_max_str_digits"
    by (simp add: ungroup_def int_max_str_digits_def)
  have h5: "details (block None [] ?title) = Some (Some ?title)" by (simp add: block_def)
  have h6: "re_match_date ?title = Some (''29'', ''02'', ''2024'')" by code_simp
  have h7: "datetime (digits_val 0 ''2024'') (digits_val 0 ''02'') (digits_val 0 ''29'') = Inr (2024, 2, 29)"
    by code_simp
  have v: "digits_val 0 (ungroup ''1,292'') = 1292" by (simp add: ungroup_def digit_val_def)
  from separators_stripped [OF h1 h2 h3, where rest = "'' nice''" and name = "''Hugo Ledoux''"
      and msg = "block None [] ?title" and title = ?title and day = "''29''" and month = "''02''"
      and yr = "''2024''" and dt = "(2024, 2, 29)" and cp = None]
    h1 h3 h4 h5 h6 h7 v
  show ?thesis by (simp add: block_def)
qed

end
